(* ===== verification/Prelude.thy ===== *)
theory Prelude
  imports Main "HOL-Library.Word"
begin

text \<open>
  Shared vocabulary of the development: the machine integers of the Rust sources, byte
  strings, Rust and Python text as lists of code points, the result type of fallible code,
  the collections the component proofs share, and the generic lemmas on lists and options.
\<close>

section \<open>Types\<close>

text \<open>
  A Rust \<open>Vec<u8>\<close> is a list of 8-bit characters, so that byte-string literals of the source
  are string literals here.  Rust \<open>str\<close> and Python \<open>str\<close> are lists of code points; a
  Rust string holds Unicode scalar values only, a Python string may hold lone surrogates.
\<close>

type_synonym bytes = string
type_synonym rstr = "nat list"
type_synonym u16 = "16 word"
type_synonym u32 = "32 word"
type_synonym usize = "64 word"
type_synonym addr = nat

definition lit :: "string \<Rightarrow> rstr" where
  "lit s = map of_char s"

lemma lit_Nil [simp]: "lit [] = []"
  by (simp add: lit_def)

lemma lit_Cons [simp]: "lit (c # s) = of_char c # lit s"
  by (simp add: lit_def)

lemma lit_append [simp]: "lit (s @ t) = lit s @ lit t"
  by (simp add: lit_def)

section \<open>Collections of facts\<close>

named_theorems enc_simps \<open>equations of the byte encoders\<close>
named_theorems dec_simps \<open>what the reference decoders do on encoded input\<close>
named_theorems frame_simps \<open>fields an operation leaves as they were\<close>
named_theorems task_defs \<open>definitions of the scheduler's operations\<close>

section \<open>Codecs\<close>

text \<open>
  The contract every encoder of the program is measured against: on the values it is meant for
  (\<open>ok\<close>), followed by any rest that can stand after it (\<open>stop\<close>), a reference decoder gives
  back the value and the untouched rest.
\<close>

locale codec =
  fixes enc :: "'a \<Rightarrow> bytes"
    and dec :: "bytes \<Rightarrow> ('a \<times> bytes) option"
    and ok :: "'a \<Rightarrow> bool"
    and stop :: "bytes \<Rightarrow> bool"
  assumes dec_enc: "ok x \<Longrightarrow> stop rest \<Longrightarrow> dec (enc x @ rest) = Some (x, rest)"
begin

lemma enc_inj:
  assumes "ok x" "ok y" "stop []" "enc x = enc y"
  shows "x = y"
  using dec_enc [of x "[]"] dec_enc [of y "[]"] assms by simp

lemma enc_prefix_free:
  assumes "ok x" "ok y" "stop r" "stop r'" "enc x @ r = enc y @ r'"
  shows "x = y \<and> r = r'"
proof -
  have "Some (x, r) = Some (y, r')"
    using dec_enc [OF assms(1,3)] dec_enc [OF assms(2,4)] unfolding assms(5) by (rule trans [OF sym])
  then show ?thesis by simp
qed

end

section \<open>Lists\<close>

lemma list_all_append_conv: "list_all P (xs @ ys) \<longleftrightarrow> list_all P xs \<and> list_all P ys"
  by simp

end
