(* ===== verification/Router.thy ===== *)
theory Router
  imports Prelude
begin

text \<open>
  \<open>crates/router/src/lib.rs\<close>: one radix tree per HTTP method.  The tree itself is the \<open>matchit\<close>
  package; the three operations the router calls are fields of \<open>matchit\<close>, and what it relies on is
  \<open>matchit_ok\<close>.
\<close>

section \<open>The table\<close>

text \<open>
  \<open>mi_insert\<close> answers with the text of its error, if any, and the tree as it is afterwards;
  \<open>mi_at\<close> with the value of the best match and the captured parameters.
\<close>

record 't matchit =
  mi_new :: 't
  mi_insert :: "rstr \<Rightarrow> nat \<Rightarrow> 't \<Rightarrow> rstr option \<times> 't"
  mi_at :: "'t \<Rightarrow> rstr \<Rightarrow> (nat \<times> (rstr \<times> rstr) list) option"

record route_match =
  handler_id :: nat
  path_params :: "(rstr \<times> rstr) list"

record route_registration_error =
  err_method :: rstr
  err_path :: rstr
  err_reason :: rstr

definition registration_error_text :: "route_registration_error \<Rightarrow> rstr" where
  "registration_error_text e =
     lit ''cannot register route '' @ err_method e @ lit '' '' @ err_path e @ lit '': '' @ err_reason e"

type_synonym 't router = "rstr \<Rightarrow> 't option"

definition router_new :: "'t router" where
  "router_new = (\<lambda>_. None)"

text \<open>
  \<open>entry(method).or_default()\<close> puts an empty tree in place before the insertion is tried, so a
  method has a tree afterwards even when its route was refused.
\<close>

definition add_route ::
    "'t matchit \<Rightarrow> rstr \<Rightarrow> rstr \<Rightarrow> nat \<Rightarrow> 't router \<Rightarrow> (route_registration_error + unit) \<times> 't router" where
  "add_route mi meth path hid r =
     (let tree = (case r meth of Some t \<Rightarrow> t | None \<Rightarrow> mi_new mi);
          (outcome, tree') = mi_insert mi path hid tree;
          r' = r(meth \<mapsto> tree')
      in case outcome of
           None \<Rightarrow> (Inr (), r')
         | Some reason \<Rightarrow> (Inl \<lparr>err_method = meth, err_path = path, err_reason = reason\<rparr>, r'))"

definition lookup :: "'t matchit \<Rightarrow> 't router \<Rightarrow> rstr \<Rightarrow> rstr \<Rightarrow> route_match option" where
  "lookup mi r meth path =
     (case r meth of
        None \<Rightarrow> None
      | Some tree \<Rightarrow>
          (case mi_at mi tree path of
             None \<Rightarrow> None
           | Some (v, params) \<Rightarrow> Some \<lparr>handler_id = v, path_params = params\<rparr>))"

section \<open>What is asked of the tree\<close>

text \<open>
  An empty tree matches nothing, and a successful insertion adds only the new route: whatever a
  path matches afterwards is the new value or what it matched before.
\<close>

definition matchit_ok :: "'t matchit \<Rightarrow> bool" where
  "matchit_ok mi \<longleftrightarrow>
     (\<forall>q. mi_at mi (mi_new mi) q = None) \<and>
     (\<forall>p v t t' q w ps. mi_insert mi p v t = (None, t') \<longrightarrow> mi_at mi t' q = Some (w, ps) \<longrightarrow>
        w = v \<or> mi_at mi t q = Some (w, ps))"

section \<open>Tables split by method\<close>

text \<open>Every handler a table finds was registered, under the method it is found with.\<close>

definition registered_in ::
    "('r \<Rightarrow> 'm \<Rightarrow> 'p \<Rightarrow> route_match option) \<Rightarrow> 'm list \<Rightarrow> 'r \<Rightarrow> bool" where
  "registered_in look ms r \<longleftrightarrow>
     (\<forall>m p x. look r m p = Some x \<longrightarrow> handler_id x < length ms \<and> ms ! handler_id x = m)"

text \<open>
  The interface the server start relies on: registering under one method leaves the others alone,
  and what a lookup finds under the method is the new handler or what it found before, the latter
  when the trees underneath are lawful.
\<close>

locale method_table =
  fixes add :: "'m \<Rightarrow> 'p \<Rightarrow> nat \<Rightarrow> 'r \<Rightarrow> ('e + unit) \<times> 'r"
    and look :: "'r \<Rightarrow> 'm \<Rightarrow> 'p \<Rightarrow> route_match option"
    and new :: 'r
    and lawful :: bool
  assumes look_new: "look new m p = None"
    and look_other: "m' \<noteq> m \<Longrightarrow> look (snd (add m p v r)) m' q = look r m' q"
    and look_added: "lawful \<Longrightarrow> add m p v r = (Inr (), r') \<Longrightarrow> look r' m q = Some x \<Longrightarrow>
      handler_id x = v \<or> look r m q = Some x"
begin

lemma registered_new: "registered_in look [] new"
  by (simp add: registered_in_def look_new)

lemma registered_add:
  assumes lawful "registered_in look ms r" "add m p (length ms) r = (Inr (), r')"
  shows "registered_in look (ms @ [m]) r'"
  unfolding registered_in_def
proof (intro allI impI)
  fix m' q x
  assume x: "look r' m' q = Some x"
  show "handler_id x < length (ms @ [m]) \<and> (ms @ [m]) ! handler_id x = m'"
  proof (cases "m' = m \<and> handler_id x = length ms")
    case True
    then show ?thesis by simp
  next
    case False
    have "look r m' q = Some x"
      using False x look_added [OF assms(1,3)] look_other [of m' m p "length ms" r q] assms(3)
      by (cases "m' = m") auto
    then have "handler_id x < length ms \<and> ms ! handler_id x = m'"
      using assms(2) by (simp add: registered_in_def)
    then show ?thesis by (simp add: nth_append)
  qed
qed

end

lemma lookup_new: "lookup mi router_new m p = None"
  by (simp add: lookup_def router_new_def)

lemma lookup_other: "m' \<noteq> m \<Longrightarrow> lookup mi (snd (add_route mi m p v r)) m' q = lookup mi r m' q"
  by (auto simp: lookup_def add_route_def Let_def split: prod.split option.split)

lemma lookup_added:
  assumes ok: "matchit_ok mi" and add: "add_route mi m p v r = (Inr (), r')"
    and look: "lookup mi r' m q = Some x"
  shows "handler_id x = v \<or> lookup mi r m q = Some x"
proof -
  let ?t = "case r m of Some t \<Rightarrow> t | None \<Rightarrow> mi_new mi"
  obtain t' where t': "mi_insert mi p v ?t = (None, t')" "r' = r(m \<mapsto> t')"
    using add by (auto simp: add_route_def Let_def split: prod.splits option.splits)
  obtain w ps where w: "mi_at mi t' q = Some (w, ps)" "x = \<lparr>handler_id = w, path_params = ps\<rparr>"
    using look by (auto simp: lookup_def t' split: option.splits)
  have "w = v \<or> mi_at mi ?t q = Some (w, ps)" using ok t'(1) w(1) unfolding matchit_ok_def by blast
  moreover have "mi_at mi (mi_new mi) q = None" using ok by (simp add: matchit_ok_def)
  ultimately show ?thesis using w(2) by (cases "r m") (auto simp: lookup_def)
qed

interpretation router: method_table "add_route mi" "lookup mi" router_new "matchit_ok mi"
  by unfold_locales (auto simp: lookup_new lookup_other dest: lookup_added)

section \<open>A concrete tree\<close>

text \<open>A tree that matches paths literally.\<close>

definition literal_tree :: "(rstr \<times> nat) list matchit" where
  "literal_tree =
     \<lparr>mi_new = [],
      mi_insert = (\<lambda>p v t. if map_of t p = None then (None, (p, v) # t) else (Some (lit ''conflict''), t)),
      mi_at = (\<lambda>t p. map_option (\<lambda>v. (v, [])) (map_of t p))\<rparr>"

lemma literal_tree_ok: "matchit_ok literal_tree"
  by (auto simp: matchit_ok_def literal_tree_def split: if_splits)

end
