(* ===== verification/Text.thy ===== *)
theory Text
  imports Prelude
begin

text \<open>
  Text at the boundary: Unicode scalar values, the UTF-8 encoding behind Rust's
  \<open>char::encode_utf8\<close>, \<open>str::as_bytes\<close> and pyo3's \<open>PyString::to_str\<close>, and a strict
  RFC 3629 decoder that the encoding is checked against.
\<close>

section \<open>Encoding\<close>

definition is_scalar :: "nat \<Rightarrow> bool" where
  "is_scalar c \<longleftrightarrow> c < 0xD800 \<or> (0xE000 \<le> c \<and> c < 0x110000)"

definition byte :: "nat \<Rightarrow> char" where
  "byte n = char_of n"

definition utf8_char :: "nat \<Rightarrow> bytes" where
  "utf8_char c =
     (if c < 0x80 then [byte c]
      else if c < 0x800 then [byte (0xC0 + c div 64), byte (0x80 + c mod 64)]
      else if c < 0x10000 then
        [byte (0xE0 + c div 4096), byte (0x80 + c div 64 mod 64), byte (0x80 + c mod 64)]
      else
        [byte (0xF0 + c div 262144), byte (0x80 + c div 4096 mod 64),
         byte (0x80 + c div 64 mod 64), byte (0x80 + c mod 64)])"

definition utf8 :: "rstr \<Rightarrow> bytes" where
  "utf8 s = concat (map utf8_char s)"

lemma utf8_simps [simp]:
  "utf8 [] = []" "utf8 (c # s) = utf8_char c @ utf8 s" "utf8 (s @ t) = utf8 s @ utf8 t"
  by (simp_all add: utf8_def)

section \<open>A strict decoder\<close>

definition cont :: "char \<Rightarrow> bool" where
  "cont b \<longleftrightarrow> 0x80 \<le> (of_char b :: nat) \<and> (of_char b :: nat) < 0xC0"

fun utf8_decode1 :: "bytes \<Rightarrow> (nat \<times> bytes) option" where
  "utf8_decode1 [] = None"
| "utf8_decode1 (b # bs) =
     (let x = of_char b in
      if x < 0x80 then Some (x, bs)
      else if 0xC0 \<le> x \<and> x < 0xE0 then
        (case bs of
           b1 # r \<Rightarrow>
             let c = (x - 0xC0) * 64 + (of_char b1 - 0x80) in
             if cont b1 \<and> 0x80 \<le> c then Some (c, r) else None
         | _ \<Rightarrow> None)
      else if 0xE0 \<le> x \<and> x < 0xF0 then
        (case bs of
           b1 # b2 # r \<Rightarrow>
             let c = (x - 0xE0) * 4096 + (of_char b1 - 0x80) * 64 + (of_char b2 - 0x80) in
             if cont b1 \<and> cont b2 \<and> 0x800 \<le> c \<and> is_scalar c then Some (c, r) else None
         | _ \<Rightarrow> None)
      else if 0xF0 \<le> x \<and> x < 0xF8 then
        (case bs of
           b1 # b2 # b3 # r \<Rightarrow>
             let c = (x - 0xF0) * 262144 + (of_char b1 - 0x80) * 4096
                     + (of_char b2 - 0x80) * 64 + (of_char b3 - 0x80) in
             if cont b1 \<and> cont b2 \<and> cont b3 \<and> 0x10000 \<le> c \<and> is_scalar c
             then Some (c, r) else None
         | _ \<Rightarrow> None)
      else None)"

lemma of_char_byte [simp]: "n < 256 \<Longrightarrow> (of_char (byte n) :: nat) = n"
  by (simp add: byte_def)

lemma cont_byte [simp]: "n < 64 \<Longrightarrow> cont (byte (128 + n))"
  by (simp add: cont_def)

lemma regroup: "a * m + b = q \<Longrightarrow> q * n + r = c \<Longrightarrow> a * (m * n) + b * n + r = (c::nat)"
  by (auto simp: algebra_simps)

lemma div_step: "(c::nat) div (n * 64) * 64 + c div n mod 64 = c div n"
  using div_mult_mod_eq [of "c div n" 64] by (simp add: div_mult2_eq [symmetric])

lemma split4096: "(c::nat) div 4096 * 4096 + c div 64 mod 64 * 64 + c mod 64 = c"
  using regroup [OF div_step [of c 64] div_mult_mod_eq [of c 64]] by (simp only: mult.commute) simp

lemma split262144:
  "(c::nat) div 262144 * 262144 + c div 4096 mod 64 * 4096 + (c div 64 mod 64 * 64 + c mod 64) = c"
  using regroup [OF div_step [of c 4096] split4096 [of c, unfolded add.assoc]] by simp

lemma utf8_decode1_utf8_char [dec_simps]:
  assumes "is_scalar c"
  shows "utf8_decode1 (utf8_char c @ rest) = Some (c, rest)"
proof -
  have lim: "c < 0x110000" using assms by (auto simp: is_scalar_def)
  consider "c < 0x80" | "0x80 \<le> c" "c < 0x800" | "0x800 \<le> c" "c < 0x10000" | "0x10000 \<le> c"
    by linarith
  then show ?thesis
  proof cases
    case 1
    then show ?thesis by (simp add: utf8_char_def Let_def)
  next
    case 2
    then have "c div 64 < 32" by auto
    with 2 show ?thesis by (simp add: utf8_char_def Let_def)
  next
    case 3
    then have "c div 4096 < 16" by auto
    with 3 assms show ?thesis
      using split4096 [of c] by (simp add: utf8_char_def Let_def)
  next
    case 4
    with lim have "c div 262144 < 8" by auto
    with 4 assms show ?thesis
      using split262144 [of c] by (simp add: utf8_char_def Let_def add.assoc)
  qed
qed

lemma utf8_decode1_shorter: "utf8_decode1 bs = Some (c, r) \<Longrightarrow> length r < length bs"
  by (cases bs) (auto simp: Let_def split: if_splits list.splits)

declare utf8_decode1.simps [simp del]

interpretation utf8c: codec utf8_char utf8_decode1 is_scalar "\<lambda>_. True"
  by unfold_locales (rule utf8_decode1_utf8_char)

lemma utf8_char_nonempty [simp]: "utf8_char c \<noteq> []"
  by (simp add: utf8_char_def)

text \<open>Encoding loses nothing: two strings of scalar values with the same bytes are the same.\<close>

lemma utf8_inj:
  "list_all is_scalar s \<Longrightarrow> list_all is_scalar t \<Longrightarrow> utf8 s = utf8 t \<Longrightarrow> s = t"
proof (induction s arbitrary: t)
  case Nil
  then show ?case by (cases t) auto
next
  case (Cons c s)
  then obtain d t' where t: "t = d # t'" by (cases t) auto
  have "c = d \<and> utf8 s = utf8 t'"
    using Cons.prems t by (intro utf8c.enc_prefix_free) auto
  with Cons t show ?case by auto
qed

end
