(* ===== verification/Numerals.thy ===== *)
theory Numerals
  imports Text
begin

text \<open>
  The number formatting and parsing of Rust's standard library that the sources use:
  \<open>i64::to_string\<close> and \<open>str::parse::<i64>\<close> (with the checked arithmetic that makes an
  overflow an error), \<open>f64::is_finite\<close>, \<open>f64::to_string\<close> (the shortest decimal inside the
  rounding interval, written without an exponent) and \<open>str::parse::<f64>\<close>.
\<close>

section \<open>Decimal digits\<close>

definition digit :: "nat \<Rightarrow> char" where
  "digit n = byte (48 + n)"

definition is_digit :: "nat \<Rightarrow> bool" where
  "is_digit c \<longleftrightarrow> 48 \<le> c \<and> c < 58"

fun show_nat :: "nat \<Rightarrow> string" where
  "show_nat n = (if n < 10 then [digit n] else show_nat (n div 10) @ [digit (n mod 10)])"

declare show_nat.simps [simp del]

definition show_int :: "int \<Rightarrow> string" where
  "show_int i = (if i < 0 then ''-'' @ show_nat (nat (- i)) else show_nat (nat i))"

definition digits_value :: "nat \<Rightarrow> nat list \<Rightarrow> nat" where
  "digits_value acc ds = foldl (\<lambda>a c. 10 * a + (c - 48)) acc ds"

lemma digits_value_simps [simp]:
  "digits_value acc [] = acc"
  "digits_value acc (c # cs) = digits_value (10 * acc + (c - 48)) cs"
  "digits_value acc (cs @ ds) = digits_value (digits_value acc cs) ds"
  by (simp_all add: digits_value_def)

lemma digits_value_acc: "digits_value acc ds = acc * 10 ^ length ds + digits_value 0 ds"
proof (induction ds arbitrary: acc)
  case Nil
  then show ?case by simp
next
  case (Cons d ds)
  have "digits_value (10 * acc + (d - 48)) ds = (10 * acc + (d - 48)) * 10 ^ length ds + digits_value 0 ds"
    by (rule Cons.IH)
  moreover have "digits_value (d - 48) ds = (d - 48) * 10 ^ length ds + digits_value 0 ds"
    by (rule Cons.IH)
  ultimately show ?case by (simp add: algebra_simps)
qed

lemma is_digit_add [simp]: "n < 10 \<Longrightarrow> is_digit (48 + n)"
  by (simp add: is_digit_def)

lemma of_char_digit [simp]: "n < 10 \<Longrightarrow> (of_char (digit n) :: nat) = 48 + n"
  by (simp add: digit_def)

lemma show_nat_nonempty [simp]: "show_nat n \<noteq> []"
  by (subst show_nat.simps) simp

lemma show_nat_digits: "list_all is_digit (lit (show_nat n))"
proof (induction n rule: show_nat.induct)
  case (1 n)
  then show ?case by (subst show_nat.simps) simp
qed

lemma show_nat_value: "digits_value 0 (lit (show_nat n)) = n"
proof (induction n rule: show_nat.induct)
  case (1 n)
  show ?case
  proof (cases "n < 10")
    case True
    then show ?thesis by (subst show_nat.simps) simp
  next
    case False
    with "1.IH" have "digits_value 0 (lit (show_nat (n div 10))) = n div 10" by simp
    with False show ?thesis by (subst show_nat.simps) simp
  qed
qed

lemma show_nat_hd:
  "n > 0 \<Longrightarrow> hd (show_nat n) \<noteq> CHR ''0''"
proof (induction n rule: show_nat.induct)
  case (1 n)
  show ?case
  proof (cases "n < 10")
    case True
    have "(of_char (digit n) :: nat) \<noteq> of_char (CHR ''0'')" using True "1.prems" by simp
    then have "digit n \<noteq> CHR ''0''" by metis
    then show ?thesis using True by (subst show_nat.simps) simp
  next
    case False
    then have "n div 10 > 0" by simp
    with False "1.IH" have "hd (show_nat (n div 10)) \<noteq> CHR ''0''" by simp
    with False show ?thesis by (subst show_nat.simps) simp
  qed
qed

lemma show_nat_zero [simp]: "show_nat 0 = ''0''"
proof -
  have "(of_char (digit 0) :: nat) = of_char CHR ''0''" by simp
  then have "digit 0 = CHR ''0''" by (simp only: of_char_eq_iff)
  then show ?thesis by (subst show_nat.simps) simp
qed

section \<open>Parsing \<open>i64\<close>\<close>

definition checked_i64 :: "int \<Rightarrow> int option" where
  "checked_i64 x = (if - (2 ^ 63) \<le> x \<and> x < 2 ^ 63 then Some x else None)"

text \<open>
  The digit loop of \<open>i64::from_str_radix\<close>: multiply and add (subtract, for a negative
  number), each checked; the first overflow or non-digit ends it with an error.
\<close>

fun i64_digits :: "bool \<Rightarrow> int \<Rightarrow> rstr \<Rightarrow> int option" where
  "i64_digits neg acc [] = Some acc"
| "i64_digits neg acc (c # cs) =
     (if \<not> is_digit c then None
      else case checked_i64 (acc * 10) of
        None \<Rightarrow> None
      | Some m \<Rightarrow>
          (case checked_i64 (if neg then m - int (c - 48) else m + int (c - 48)) of
             None \<Rightarrow> None
           | Some a \<Rightarrow> i64_digits neg a cs))"

definition parse_i64 :: "rstr \<Rightarrow> int option" where
  "parse_i64 s =
     (case s of
        [] \<Rightarrow> None
      | c # cs \<Rightarrow>
          if c = 43 then (if cs = [] then None else i64_digits False 0 cs)
          else if c = 45 then (if cs = [] then None else i64_digits True 0 cs)
          else i64_digits False 0 s)"

text \<open>What the loop computes: the exact value when it fits, and an error otherwise.\<close>

lemma i64_digits_pos:
  "0 \<le> acc \<Longrightarrow> acc < 2 ^ 63 \<Longrightarrow>
   i64_digits False acc cs =
     (if list_all is_digit cs \<and> int (digits_value (nat acc) cs) < 2 ^ 63
      then Some (int (digits_value (nat acc) cs)) else None)"
proof (induction cs arbitrary: acc)
  case Nil
  then show ?case by simp
next
  case (Cons c cs)
  define a where "a = acc * 10 + int (c - 48)"
  have a: "0 \<le> a" "nat a = 10 * nat acc + (c - 48)" "acc * 10 \<le> a" "0 \<le> acc * 10"
    using Cons.prems by (auto simp: a_def nat_add_distrib nat_mult_distrib)
  have grow: "a \<le> int (digits_value (nat a) cs)"
  proof -
    have "nat a \<le> nat a * 10 ^ length cs + digits_value 0 cs"
      by (simp add: trans_le_add1)
    then show ?thesis using a(1) by (subst digits_value_acc) (simp add: nat_le_iff)
  qed
  show ?case
  proof (cases "is_digit c \<and> a < 2 ^ 63")
    case True
    have low: "- (2 ^ 63) \<le> acc * 10" "- (2 ^ 63) \<le> a" using a(1,4) by simp_all
    have m: "checked_i64 (acc * 10) = Some (acc * 10)" "checked_i64 a = Some a"
      using True a low by (simp_all add: checked_i64_def)
    show ?thesis
      using True Cons.IH [OF a(1)] m a(2) by (simp add: a_def [symmetric])
  next
    case False
    then have "i64_digits False acc (c # cs) = None"
      using a by (auto simp: checked_i64_def a_def [symmetric])
    moreover have "\<not> (is_digit c \<and> int (digits_value (nat a) cs) < 2 ^ 63)"
      using False grow by auto
    ultimately show ?thesis by (auto simp: a(2) [symmetric])
  qed
qed

lemma i64_digits_neg:
  "acc \<le> 0 \<Longrightarrow> - (2 ^ 63) \<le> acc \<Longrightarrow>
   i64_digits True acc cs =
     (if list_all is_digit cs \<and> - (2 ^ 63) \<le> - int (digits_value (nat (- acc)) cs)
      then Some (- int (digits_value (nat (- acc)) cs)) else None)"
proof (induction cs arbitrary: acc)
  case Nil
  then show ?case by simp
next
  case (Cons c cs)
  define a where "a = acc * 10 - int (c - 48)"
  have a: "a \<le> 0" "nat (- a) = 10 * nat (- acc) + (c - 48)" "a \<le> acc * 10" "acc * 10 \<le> 0"
    using Cons.prems by (auto simp: a_def nat_add_distrib nat_mult_distrib)
  have grow: "- int (digits_value (nat (- a)) cs) \<le> a"
  proof -
    have "nat (- a) \<le> nat (- a) * 10 ^ length cs + digits_value 0 cs"
      by (simp add: trans_le_add1)
    then show ?thesis using a(1) by (subst digits_value_acc) (simp add: nat_le_iff)
  qed
  show ?case
  proof (cases "is_digit c \<and> - (2 ^ 63) \<le> a")
    case True
    have high: "acc * 10 < 2 ^ 63" "a < 2 ^ 63" using a(1,4) by simp_all
    have m: "checked_i64 (acc * 10) = Some (acc * 10)" "checked_i64 a = Some a"
      using True a high by (simp_all add: checked_i64_def)
    show ?thesis
      using True Cons.IH [OF a(1)] m a(2) by (simp add: a_def [symmetric])
  next
    case False
    then have "i64_digits True acc (c # cs) = None"
      using a by (auto simp: checked_i64_def a_def [symmetric])
    moreover have "\<not> (is_digit c \<and> - (2 ^ 63) \<le> - int (digits_value (nat (- a)) cs))"
      using False grow by auto
    ultimately show ?thesis by (auto simp: a(2) [symmetric])
  qed
qed

text \<open>Parsing what was printed gives the integer back over the whole 64-bit range, and nothing else.\<close>

lemma parse_i64_show_int: "parse_i64 (lit (show_int i)) = checked_i64 i"
proof (cases "i < 0")
  case True
  then have "lit (show_int i) = 45 # lit (show_nat (nat (- i)))" by (simp add: show_int_def)
  moreover have "lit (show_nat (nat (- i))) \<noteq> []"
    using show_nat_nonempty [of "nat (- i)"] by (simp add: lit_def)
  ultimately show ?thesis
    using True show_nat_digits [of "nat (- i)"] show_nat_value [of "nat (- i)"]
    by (simp add: parse_i64_def i64_digits_neg checked_i64_def)
next
  case False
  then obtain c cs where s: "lit (show_int i) = c # cs"
    using show_nat_nonempty [of "nat i"] by (cases "show_nat (nat i)") (auto simp: show_int_def)
  have d: "list_all is_digit (c # cs)" "digits_value 0 (c # cs) = nat i"
    using False s show_nat_digits [of "nat i"] show_nat_value [of "nat i"]
    by (simp_all add: show_int_def)
  then have "c \<noteq> 43" "c \<noteq> 45" by (auto simp: is_digit_def)
  with False s d show ?thesis
    by (simp add: parse_i64_def i64_digits_pos checked_i64_def del: i64_digits.simps digits_value_simps)
qed

section \<open>The integers a text denotes\<close>

text \<open>
  Independently of the loop: an optional sign and at least one decimal digit, with the positional value
  of the digits.  Leading zeros and a plus sign are allowed, spaces and underscores are not.
\<close>

definition positional :: "rstr \<Rightarrow> int" where
  "positional ds = (\<Sum>i<length ds. int (ds ! i - 48) * 10 ^ (length ds - Suc i))"

inductive denotes_int :: "rstr \<Rightarrow> int \<Rightarrow> bool" where
  Unsigned: "ds \<noteq> [] \<Longrightarrow> list_all is_digit ds \<Longrightarrow> denotes_int ds (positional ds)"
| Plus: "ds \<noteq> [] \<Longrightarrow> list_all is_digit ds \<Longrightarrow> denotes_int (43 # ds) (positional ds)"
| Minus: "ds \<noteq> [] \<Longrightarrow> list_all is_digit ds \<Longrightarrow> denotes_int (45 # ds) (- positional ds)"

inductive_cases denotes_int_ConsE: "denotes_int (c # cs) i"
inductive_cases denotes_int_NilE: "denotes_int [] i"

lemma positional_value: "positional ds = int (digits_value 0 ds)"
proof (induction ds)
  case Nil
  then show ?case by (simp add: positional_def)
next
  case (Cons d ds)
  have "positional (d # ds) = int (d - 48) * 10 ^ length ds + positional ds"
    by (simp add: positional_def sum.lessThan_Suc_shift del: sum.lessThan_Suc)
  also have "\<dots> = int ((d - 48) * 10 ^ length ds + digits_value 0 ds)" by (simp add: Cons.IH)
  also have "(d - 48) * 10 ^ length ds + digits_value 0 ds = digits_value 0 (d # ds)"
    using digits_value_acc [of "d - 48" ds] by simp
  finally show ?case .
qed

text \<open>Parsing succeeds exactly on the texts of the integers of the 64-bit range.\<close>

lemma parse_i64_denotes:
  "parse_i64 s = Some i \<longleftrightarrow> denotes_int s i \<and> - (2 ^ 63) \<le> i \<and> i < 2 ^ 63"
proof (cases s)
  case Nil
  then show ?thesis by (auto simp: parse_i64_def elim: denotes_int_NilE)
next
  case (Cons c cs)
  have low: "- (2 ^ 63) \<le> int m" "- int m < 2 ^ 63" for m :: nat
    by simp_all
  have sign: "\<not> is_digit 43" "\<not> is_digit 45" by (simp_all add: is_digit_def)
  have "denotes_int (43 # cs) j \<longleftrightarrow> cs \<noteq> [] \<and> list_all is_digit cs \<and> j = positional cs" for j
    using sign by (auto elim: denotes_int_ConsE intro: denotes_int.Plus)
  moreover have "denotes_int (45 # cs) j \<longleftrightarrow> cs \<noteq> [] \<and> list_all is_digit cs \<and> j = - positional cs" for j
    using sign by (auto elim: denotes_int_ConsE intro: denotes_int.Minus)
  moreover have "denotes_int (c # cs) j \<longleftrightarrow> list_all is_digit (c # cs) \<and> j = positional (c # cs)"
    if "c \<noteq> 43" "c \<noteq> 45" for j
    using that by (auto elim: denotes_int_ConsE intro: denotes_int.Unsigned)
  ultimately show ?thesis
    using i64_digits_pos [of 0 cs] i64_digits_pos [of 0 "c # cs"] i64_digits_neg [of 0 cs] low
    by (auto simp: parse_i64_def Cons positional_value simp del: i64_digits.simps digits_value_simps
        split: if_splits)
qed

end
