(* ===== verification/Float64.thy ===== *)
theory Float64
  imports Numerals
begin

text \<open>
  IEEE binary64 as the sources use it through Rust's standard library: \<open>f64::is_finite\<close>,
  \<open>f64::to_string\<close> and \<open>str::parse::<f64>\<close>, on the 64 bits of the number.

  Formatting follows \<open>core::fmt\<close> (Display, no precision): the number is decoded into a
  mantissa, its rounding interval and a binary exponent; the shortest decimal \<open>d * 10 ^ k\<close> in
  the interval (the nearest of two, upwards on a tie) is found by going down through the powers
  of ten; its digits are written without an exponent.
\<close>

type_synonym f64 = "64 word"

section \<open>The fields of the representation\<close>

definition f64_negative :: "f64 \<Rightarrow> bool" where
  "f64_negative b \<longleftrightarrow> 2 ^ 63 \<le> unat b"

definition f64_exponent :: "f64 \<Rightarrow> nat" where
  "f64_exponent b = unat b div 2 ^ 52 mod 2048"

definition f64_fraction :: "f64 \<Rightarrow> nat" where
  "f64_fraction b = unat b mod 2 ^ 52"

definition f64_is_finite :: "f64 \<Rightarrow> bool" where
  "f64_is_finite b \<longleftrightarrow> f64_exponent b \<noteq> 2047"

definition f64_is_zero :: "f64 \<Rightarrow> bool" where
  "f64_is_zero b \<longleftrightarrow> f64_exponent b = 0 \<and> f64_fraction b = 0"

section \<open>Formatting\<close>

record decoded =
  mant :: nat
  dminus :: nat
  dplus :: nat
  bexp :: int
  inclusive :: bool

definition f64_decode :: "f64 \<Rightarrow> decoded" where
  "f64_decode b =
     (let e = f64_exponent b; f = f64_fraction b in
      if e = 0 then
        \<lparr>mant = 2 * f, dminus = 1, dplus = 1, bexp = - 1075, inclusive = True\<rparr>
      else if f = 0 then
        \<lparr>mant = 4 * 2 ^ 52, dminus = 1, dplus = 2, bexp = int e - 1077, inclusive = True\<rparr>
      else
        \<lparr>mant = 2 * (2 ^ 52 + f), dminus = 1, dplus = 1, bexp = int e - 1076, inclusive = even f\<rparr>)"

text \<open>The unit \<open>10 ^ k\<close> and the decoded number over a common denominator.\<close>

definition num_scale :: "decoded \<Rightarrow> int \<Rightarrow> nat" where
  "num_scale d k =
     (if 0 \<le> bexp d then 2 ^ nat (bexp d) else 1) * (if k < 0 then 10 ^ nat (- k) else 1)"

definition unit_scale :: "decoded \<Rightarrow> int \<Rightarrow> nat" where
  "unit_scale d k =
     (if bexp d < 0 then 2 ^ nat (- bexp d) else 1) * (if 0 \<le> k then 10 ^ nat k else 1)"

definition inside :: "decoded \<Rightarrow> int \<Rightarrow> nat \<Rightarrow> bool" where
  "inside d k n =
     (let x = n * unit_scale d k;
          lo = (mant d - dminus d) * num_scale d k;
          hi = (mant d + dplus d) * num_scale d k
      in if inclusive d then lo \<le> x \<and> x \<le> hi else lo < x \<and> x < hi)"

definition below :: "decoded \<Rightarrow> int \<Rightarrow> nat" where
  "below d k = mant d * num_scale d k div unit_scale d k"

definition pick :: "decoded \<Rightarrow> int \<Rightarrow> nat" where
  "pick d k =
     (let n = below d k; down = inside d k n; up = inside d k (Suc n);
          r = mant d * num_scale d k - n * unit_scale d k
      in if up \<and> (\<not> down \<or> unit_scale d k \<le> 2 * r) then Suc n else n)"

function shortest :: "decoded \<Rightarrow> int \<Rightarrow> nat \<times> int" where
  "shortest d k =
     (if inside d k (below d k) \<or> inside d k (Suc (below d k)) \<or> k \<le> - 324
      then (pick d k, k) else shortest d (k - 1))"
  by pat_completeness auto
termination
  by (relation "measure (\<lambda>(d, k). nat (k + 324))") auto

declare shortest.simps [simp del]

text \<open>The first power of ten above the interval: no larger unit can be inside.\<close>

definition top_power :: "decoded \<Rightarrow> int" where
  "top_power d = int (length (show_nat ((mant d + dplus d) * num_scale d 0 div unit_scale d 0)))"

definition dec_str :: "string \<Rightarrow> int \<Rightarrow> string" where
  "dec_str buf e =
     (if e \<le> 0 then ''0.'' @ replicate (nat (- e)) CHR ''0'' @ buf
      else if nat e < length buf then take (nat e) buf @ ''.'' @ drop (nat e) buf
      else buf @ replicate (nat e - length buf) CHR ''0'')"

definition f64_to_string :: "f64 \<Rightarrow> string" where
  "f64_to_string b =
     (let sign = (if f64_negative b then ''-'' else []) in
      if f64_exponent b = 2047 then
        (if f64_fraction b = 0 then sign @ ''inf'' else ''NaN'')
      else if f64_is_zero b then sign @ ''0''
      else
        (let d = f64_decode b; (n, k) = shortest d (top_power d); buf = show_nat n
         in sign @ dec_str buf (int (length buf) + k)))"

section \<open>Parsing\<close>

fun bit_length :: "nat \<Rightarrow> nat" where
  "bit_length n = (if n = 0 then 0 else Suc (bit_length (n div 2)))"

declare bit_length.simps [simp del]

definition pow2_scaled :: "nat \<Rightarrow> int \<Rightarrow> nat" where
  "pow2_scaled n e = (if 0 \<le> e then n * 2 ^ nat e else n)"

text \<open>\<open>floor_log2 n m\<close> is the largest \<open>e\<close> with \<open>2 ^ e \<le> n / m\<close>.\<close>

definition floor_log2 :: "nat \<Rightarrow> nat \<Rightarrow> int" where
  "floor_log2 n m =
     (let e = int (bit_length n) - int (bit_length m)
      in if pow2_scaled m e \<le> pow2_scaled n (- e) then e else e - 1)"

definition round_half_even :: "nat \<Rightarrow> nat \<Rightarrow> nat" where
  "round_half_even n m =
     (let q = n div m; r = n mod m
      in if 2 * r < m \<or> (2 * r = m \<and> even q) then q else Suc q)"

text \<open>The bits of the binary64 number nearest to \<open>n / m\<close>, infinity from \<open>2 ^ 1024\<close> on.\<close>

definition round_f64 :: "nat \<Rightarrow> nat \<Rightarrow> nat" where
  "round_f64 n m =
     (if n = 0 then 0
      else let e = max (- 1022) (floor_log2 n m);
               bits = nat (e + 1022) * 2 ^ 52
                      + round_half_even (pow2_scaled n (52 - e)) (pow2_scaled m (e - 52))
           in min bits (2047 * 2 ^ 52))"

definition lower :: "nat \<Rightarrow> nat" where
  "lower c = (if 65 \<le> c \<and> c < 91 then c + 32 else c)"

definition eq_ignore_ascii_case :: "rstr \<Rightarrow> rstr \<Rightarrow> bool" where
  "eq_ignore_ascii_case s t \<longleftrightarrow> map lower s = map lower t"

text \<open>Sign, digits, optional point and digits, optional exponent; at least one digit.\<close>

definition parse_exponent :: "rstr \<Rightarrow> int option" where
  "parse_exponent s =
     (case s of
        [] \<Rightarrow> Some 0
      | c # cs \<Rightarrow>
          if lower c \<noteq> 101 then None
          else (let (neg, ds) = (case cs of x # r \<Rightarrow> if x = 45 then (True, r)
                                                else if x = 43 then (False, r) else (False, cs)
                                    | [] \<Rightarrow> (False, []))
                in if ds = [] \<or> \<not> list_all is_digit ds then None
                   else Some (if neg then - int (digits_value 0 ds) else int (digits_value 0 ds))))"

definition parse_decimal :: "rstr \<Rightarrow> nat option" where
  "parse_decimal s =
     (let ip = takeWhile is_digit s; r1 = dropWhile is_digit s;
          (fp, r2) = (case r1 of c # r \<Rightarrow> if c = 46 then (takeWhile is_digit r, dropWhile is_digit r)
                                        else ([], r1)
                        | [] \<Rightarrow> ([], []))
      in if ip = [] \<and> fp = [] then None
         else case parse_exponent r2 of
           None \<Rightarrow> None
         | Some e \<Rightarrow>
             let n = digits_value 0 (ip @ fp); x = e - int (length fp)
             in Some (if 0 \<le> x then round_f64 (n * 10 ^ nat x) 1 else round_f64 n (10 ^ nat (- x))))"

definition parse_f64 :: "rstr \<Rightarrow> f64 option" where
  "parse_f64 s =
     (let (neg, r) = (case s of c # cs \<Rightarrow> if c = 45 then (True, cs)
                                      else if c = 43 then (False, cs) else (False, s)
                         | [] \<Rightarrow> (False, []));
          magnitude =
            (if eq_ignore_ascii_case r (lit ''inf'') \<or> eq_ignore_ascii_case r (lit ''infinity'')
             then Some (2047 * 2 ^ 52)
             else if eq_ignore_ascii_case r (lit ''nan'') then Some (4095 * 2 ^ 51)
             else parse_decimal r)
      in map_option (\<lambda>m. of_nat (if neg then 2 ^ 63 + m else m)) magnitude)"

end
