(* ===== verification/PyObjects.thy ===== *)
theory PyObjects
  imports Float64
begin

text \<open>
  Python values as the Rust side can see them.  The built-in types the serializer and the
  scheduler distinguish have their own constructors (a value of a subclass of \<open>int\<close>, \<open>str\<close>,
  \<open>list\<close>, \<dots> is read through the same constructor, as pyo3's \<open>cast\<close> does); exceptions carry
  their class and \<open>args\<close>; every other object is a reference with its identity and, where it
  can be read, the name of its type.  Values are finite trees.
\<close>

datatype exc_class =
    CancelledError | InvalidStateError | StopIteration | RuntimeError | TypeError | ValueError
  | UnicodeEncodeError | AttributeError | OtherException rstr | SubclassOf exc_class rstr

datatype pyobj =
    PyNone
  | PyBool bool
  | PyInt int
  | PyFloat f64
  | PyStr rstr
  | PyDict "(pyobj \<times> pyobj) list"
  | PyList "pyobj list"
  | PyTuple "pyobj list"
  | PyExc exc_class "pyobj list"
  | PyRef nat "rstr option"

definition new_err :: "exc_class \<Rightarrow> rstr \<Rightarrow> pyobj" where
  "new_err c message = PyExc c [PyStr message]"

text \<open>\<open>is_instance_of\<close> and \<open>PyErr::is_instance\<close> accept the class and everything derived from it.\<close>

fun derives :: "exc_class \<Rightarrow> exc_class \<Rightarrow> bool" where
  "derives (SubclassOf d n) c = (c = SubclassOf d n \<or> derives d c)"
| "derives UnicodeEncodeError c = (c = UnicodeEncodeError \<or> c = ValueError)"
| "derives d c = (d = c)"

definition is_instance :: "exc_class \<Rightarrow> pyobj \<Rightarrow> bool" where
  "is_instance c v \<longleftrightarrow> (case v of PyExc d _ \<Rightarrow> derives d c | _ \<Rightarrow> False)"

fun exc_class_name :: "exc_class \<Rightarrow> rstr" where
  "exc_class_name CancelledError = lit ''CancelledError''"
| "exc_class_name InvalidStateError = lit ''InvalidStateError''"
| "exc_class_name StopIteration = lit ''StopIteration''"
| "exc_class_name RuntimeError = lit ''RuntimeError''"
| "exc_class_name TypeError = lit ''TypeError''"
| "exc_class_name ValueError = lit ''ValueError''"
| "exc_class_name UnicodeEncodeError = lit ''UnicodeEncodeError''"
| "exc_class_name AttributeError = lit ''AttributeError''"
| "exc_class_name (OtherException n) = n"
| "exc_class_name (SubclassOf _ n) = n"

text \<open>\<open>get_type().name()\<close>, which raises where the type has no readable name.\<close>

fun type_name :: "pyobj \<Rightarrow> pyobj + rstr" where
  "type_name PyNone = Inr (lit ''NoneType'')"
| "type_name (PyBool _) = Inr (lit ''bool'')"
| "type_name (PyInt _) = Inr (lit ''int'')"
| "type_name (PyFloat _) = Inr (lit ''float'')"
| "type_name (PyStr _) = Inr (lit ''str'')"
| "type_name (PyDict _) = Inr (lit ''dict'')"
| "type_name (PyList _) = Inr (lit ''list'')"
| "type_name (PyTuple _) = Inr (lit ''tuple'')"
| "type_name (PyExc c _) = Inr (exc_class_name c)"
| "type_name (PyRef _ (Some n)) = Inr n"
| "type_name (PyRef _ None) = Inl (new_err AttributeError (lit ''__name__''))"

text \<open>\<open>PyString::to_str\<close>: UTF-8 text, or an encoding error for lone surrogates.\<close>

definition to_str :: "rstr \<Rightarrow> pyobj + rstr" where
  "to_str s =
     (if list_all is_scalar s then Inr s
      else Inl (new_err UnicodeEncodeError (lit ''surrogates not allowed'')))"

lemma to_str_Inr: "to_str s = Inr t \<longleftrightarrow> t = s \<and> list_all is_scalar s"
  by (auto simp: to_str_def)

text \<open>
  pyo3's \<open>extract::<i64>\<close> on a Python \<open>int\<close>: the value, or an overflow error.
\<close>

definition extract_i64 :: "int \<Rightarrow> int option" where
  "extract_i64 i = checked_i64 i"

end
