(* ===== verification/Schema.thy ===== *)
theory Schema
  imports PyObjects
begin

text \<open>
  \<open>crates/schema/src/lib.rs\<close>: the Rust-direct JSON serializer.  \<open>write_json\<close> appends to the
  output vector and returns Python's error where a value cannot be serialized; the bytes
  written before the error stay in the vector, as in the source.
\<close>

section \<open>Strings\<close>

definition hex_digit :: "nat \<Rightarrow> char" where
  "hex_digit n = (if n < 10 then byte (48 + n) else byte (87 + n))"

definition escape_char :: "nat \<Rightarrow> bytes" where
  "escape_char c =
     (if c = 34 then [CHR 0x5C, CHR 0x22]
      else if c = 92 then [CHR 0x5C, CHR 0x5C]
      else if c = 10 then [CHR 0x5C, CHR ''n'']
      else if c = 13 then [CHR 0x5C, CHR ''r'']
      else if c = 9 then [CHR 0x5C, CHR ''t'']
      else if c < 0x20 then
        [CHR 0x5C, CHR ''u'', hex_digit (c div 4096 mod 16), hex_digit (c div 256 mod 16),
         hex_digit (c div 16 mod 16), hex_digit (c mod 16)]
      else utf8_char c)"

fun write_chars :: "rstr \<Rightarrow> bytes \<Rightarrow> bytes" where
  "write_chars [] out = out"
| "write_chars (c # cs) out = write_chars cs (out @ escape_char c)"

definition write_json_string :: "rstr \<Rightarrow> bytes \<Rightarrow> bytes" where
  "write_json_string text out = write_chars text (out @ [CHR 0x22]) @ [CHR 0x22]"

section \<open>Values\<close>

definition int_range_error :: pyobj where
  "int_range_error =
     new_err ValueError
       (lit ''Rayo cannot serialize integers outside the 64-bit range to JSON yet'')"

definition non_finite_error :: pyobj where
  "non_finite_error =
     new_err ValueError
       (lit ''JSON cannot represent NaN or infinity; return None or a string instead'')"

definition key_type_error :: "pyobj \<Rightarrow> pyobj" where
  "key_type_error k =
     (case type_name k of
        Inl e \<Rightarrow> e
      | Inr n \<Rightarrow> new_err TypeError (lit ''JSON object keys must be str, found '' @ n))"

definition unsupported_error :: "pyobj \<Rightarrow> pyobj" where
  "unsupported_error v =
     (case type_name v of
        Inl e \<Rightarrow> e
      | Inr n \<Rightarrow>
          new_err TypeError
            (lit ''Rayo cannot serialize '' @ n
             @ lit '' to JSON yet (v0 supports dict, list, tuple, str, int, float, bool, None; typed models arrive with the schema engine)''))"

function (sequential) write_json :: "pyobj \<Rightarrow> bytes \<Rightarrow> (pyobj + unit) \<times> bytes"
  and write_json_entries :: "bool \<Rightarrow> (pyobj \<times> pyobj) list \<Rightarrow> bytes \<Rightarrow> (pyobj + unit) \<times> bytes"
  and write_json_sequence :: "pyobj list \<Rightarrow> bytes \<Rightarrow> (pyobj + unit) \<times> bytes"
  and write_json_items :: "nat \<Rightarrow> pyobj list \<Rightarrow> bytes \<Rightarrow> (pyobj + unit) \<times> bytes"
where
  "write_json PyNone out = (Inr (), out @ ''null'')"
| "write_json (PyBool b) out = (Inr (), out @ (if b then ''true'' else ''false''))"
| "write_json (PyInt i) out =
     (case extract_i64 i of
        None \<Rightarrow> (Inl int_range_error, out)
      | Some n \<Rightarrow> (Inr (), out @ show_int n))"
| "write_json (PyFloat x) out =
     (if \<not> f64_is_finite x then (Inl non_finite_error, out)
      else (Inr (), out @ f64_to_string x))"
| "write_json (PyStr s) out =
     (case to_str s of
        Inl e \<Rightarrow> (Inl e, out)
      | Inr text \<Rightarrow> (Inr (), write_json_string text out))"
| "write_json (PyDict entries) out =
     (case write_json_entries True entries (out @ ''{'') of
        (Inl e, out') \<Rightarrow> (Inl e, out')
      | (Inr _, out') \<Rightarrow> (Inr (), out' @ ''}''))"
| "write_json (PyList items) out = write_json_sequence items out"
| "write_json (PyTuple items) out = write_json_sequence items out"
| "write_json (PyExc c a) out = (Inl (unsupported_error (PyExc c a)), out)"
| "write_json (PyRef i n) out = (Inl (unsupported_error (PyRef i n)), out)"
| "write_json_entries first_entry [] out = (Inr (), out)"
| "write_json_entries first_entry ((entry_key, entry_value) # entries) out =
     (let out = (if \<not> first_entry then out @ '','' else out) in
      case entry_key of
        PyStr s \<Rightarrow>
          (case to_str s of
             Inl e \<Rightarrow> (Inl e, out)
           | Inr key_text \<Rightarrow>
               (case write_json entry_value (write_json_string key_text out @ '':'') of
                  (Inl e, out') \<Rightarrow> (Inl e, out')
                | (Inr _, out') \<Rightarrow> write_json_entries False entries out'))
      | _ \<Rightarrow> (Inl (key_type_error entry_key), out))"
| "write_json_sequence items out =
     (case write_json_items 0 items (out @ ''['') of
        (Inl e, out') \<Rightarrow> (Inl e, out')
      | (Inr _, out') \<Rightarrow> (Inr (), out' @ '']''))"
| "write_json_items index [] out = (Inr (), out)"
| "write_json_items index (item # items) out =
     (case write_json item (if index > 0 then out @ '','' else out) of
        (Inl e, out') \<Rightarrow> (Inl e, out')
      | (Inr _, out') \<Rightarrow> write_json_items (Suc index) items out')"
  by pat_completeness auto
termination
  by (relation "measure (\<lambda>x. case x of
        Inl (Inl (v, _)) \<Rightarrow> 2 * size v
      | Inl (Inr (_, es, _)) \<Rightarrow> 2 * size_list (size_prod size size) es
      | Inr (Inl (is, _)) \<Rightarrow> Suc (2 * size_list size is)
      | Inr (Inr (_, is, _)) \<Rightarrow> 2 * size_list size is)")
    (auto simp: size_list_conv_sum_list)

section \<open>Reference: what is written, and which error is raised\<close>

text \<open>
  The same serializer without an output vector: \<open>json_text\<close> is the text of a value and
  \<open>json_error\<close> the first error met in document order, \<open>None\<close> for a serializable value.
\<close>

fun commas :: "bytes list \<Rightarrow> bytes" where
  "commas [] = []"
| "commas [x] = x"
| "commas (x # y # ys) = x @ '','' @ commas (y # ys)"

definition or_else :: "'a option \<Rightarrow> 'a option \<Rightarrow> 'a option" where
  "or_else a b = (case a of None \<Rightarrow> b | Some x \<Rightarrow> Some x)"

lemma or_else_simps [simp]: "or_else None b = b" "or_else (Some x) b = Some x" "or_else a None = a"
  by (simp_all add: or_else_def split: option.split)

fun first_some :: "'a option list \<Rightarrow> 'a option" where
  "first_some [] = None"
| "first_some (x # xs) = or_else x (first_some xs)"

fun json_text :: "pyobj \<Rightarrow> bytes" where
  "json_text PyNone = ''null''"
| "json_text (PyBool b) = (if b then ''true'' else ''false'')"
| "json_text (PyInt i) = show_int i"
| "json_text (PyFloat x) = f64_to_string x"
| "json_text (PyStr s) = [CHR 0x22] @ concat (map escape_char s) @ [CHR 0x22]"
| "json_text (PyDict es) =
     ''{'' @ commas (map (\<lambda>(k, v). json_text k @ '':'' @ json_text v) es) @ ''}''"
| "json_text (PyList xs) = ''['' @ commas (map json_text xs) @ '']''"
| "json_text (PyTuple xs) = ''['' @ commas (map json_text xs) @ '']''"
| "json_text (PyExc c a) = []"
| "json_text (PyRef i n) = []"

definition str_error :: "rstr \<Rightarrow> pyobj option" where
  "str_error s = (case to_str s of Inl e \<Rightarrow> Some e | Inr _ \<Rightarrow> None)"

definition key_error :: "pyobj \<Rightarrow> pyobj option" where
  "key_error k = (case k of PyStr s \<Rightarrow> str_error s | _ \<Rightarrow> Some (key_type_error k))"

fun json_error :: "pyobj \<Rightarrow> pyobj option" where
  "json_error PyNone = None"
| "json_error (PyBool b) = None"
| "json_error (PyInt i) = (if - (2 ^ 63) \<le> i \<and> i < 2 ^ 63 then None else Some int_range_error)"
| "json_error (PyFloat x) = (if f64_is_finite x then None else Some non_finite_error)"
| "json_error (PyStr s) = str_error s"
| "json_error (PyDict es) = first_some (map (\<lambda>(k, v). or_else (key_error k) (json_error v)) es)"
| "json_error (PyList xs) = first_some (map json_error xs)"
| "json_error (PyTuple xs) = first_some (map json_error xs)"
| "json_error (PyExc c a) = Some (unsupported_error (PyExc c a))"
| "json_error (PyRef i n) = Some (unsupported_error (PyRef i n))"

section \<open>The serializer agrees with the reference\<close>

lemma write_chars_append: "write_chars cs out = out @ concat (map escape_char cs)"
  by (induction cs arbitrary: out) auto

lemma write_json_string_append: "write_json_string t (p @ out) = p @ write_json_string t out"
  by (simp add: write_json_string_def write_chars_append)

lemmas write_json_induct =
  write_json_write_json_entries_write_json_sequence_write_json_items.induct

lemma write_json_append:
  "write_json v (p @ out) = apsnd ((@) p) (write_json v out)"
  "write_json_entries f es (p @ out) = apsnd ((@) p) (write_json_entries f es out)"
  "write_json_sequence is (p @ out) = apsnd ((@) p) (write_json_sequence is out)"
  "write_json_items n is (p @ out) = apsnd ((@) p) (write_json_items n is out)"
proof (induction v out and f es out and "is" out and n "is" out rule: write_json_induct)
qed (auto simp: Let_def write_json_string_append split: option.splits sum.splits prod.splits pyobj.splits)

text \<open>
  \<open>writes w e t\<close>: the writer \<open>w\<close> appends exactly \<open>t\<close> to any output when \<open>e\<close> is \<open>None\<close>, and
  fails with the error \<open>e\<close> names otherwise.
\<close>

definition writes :: "(bytes \<Rightarrow> (pyobj + unit) \<times> bytes) \<Rightarrow> pyobj option \<Rightarrow> bytes \<Rightarrow> bool" where
  "writes w e t \<longleftrightarrow>
     (\<forall>out. case e of None \<Rightarrow> w out = (Inr (), out @ t) | Some x \<Rightarrow> fst (w out) = Inl x)"

lemma writes_OK: "writes w None t \<Longrightarrow> w out = (Inr (), out @ t)"
  by (simp add: writes_def)

lemma writes_Err: "writes w (Some x) t \<Longrightarrow> fst (w out) = Inl x"
  by (simp add: writes_def)

lemma writes_pure: "writes (\<lambda>out. (Inr (), out @ t)) None t"
  by (simp add: writes_def)

definition and_then ::
    "(bytes \<Rightarrow> (pyobj + unit) \<times> bytes) \<Rightarrow> (bytes \<Rightarrow> (pyobj + unit) \<times> bytes) \<Rightarrow>
     bytes \<Rightarrow> (pyobj + unit) \<times> bytes" where
  "and_then w1 w2 out = (case w1 out of (Inl e, o') \<Rightarrow> (Inl e, o') | (Inr _, o') \<Rightarrow> w2 o')"

lemma writes_and_then:
  assumes "writes w1 e1 t1" "writes w2 e2 t2"
  shows "writes (and_then w1 w2) (or_else e1 e2) (t1 @ t2)"
proof (cases e1)
  case None
  with writes_OK [of w1 t1] assms have "and_then w1 w2 out = w2 (out @ t1)" for out
    by (simp add: and_then_def)
  with None assms(2) show ?thesis by (cases e2) (simp_all add: writes_def)
next
  case (Some x)
  with assms(1) have "\<exists>o'. w1 out = (Inl x, o')" for out
    by (cases "w1 out") (metis fst_conv writes_Err)
  then have "fst (and_then w1 w2 out) = Inl x" for out
    by (metis (no_types, lifting) and_then_def fst_conv old.prod.case old.sum.simps(5))
  with Some show ?thesis by (simp add: writes_def)
qed

lemma writes_after: "writes w e t \<Longrightarrow> writes (\<lambda>out. w (out @ s)) e (s @ t)"
  by (auto simp: writes_def split: option.splits)

lemma writes_text: "writes w e t \<Longrightarrow> (e = None \<Longrightarrow> t = t') \<Longrightarrow> writes w e t'"
  by (auto simp: writes_def split: option.splits)

lemma commas_Cons: "commas (x # xs) = x @ (if xs = [] then [] else '','' @ commas xs)"
  by (cases xs) auto

lemma items_write:
  "\<forall>x \<in> set xs. writes (write_json x) (json_error x) (json_text x) \<Longrightarrow>
   writes (write_json_items n xs) (first_some (map json_error xs))
     ((if n > 0 \<and> xs \<noteq> [] then '','' else []) @ commas (map json_text xs))"
proof (induction xs arbitrary: n)
  case Nil
  then show ?case by (simp add: writes_def)
next
  case (Cons x xs)
  have "writes (\<lambda>out. write_json x (out @ (if n > 0 then '','' else [])))
          (json_error x) ((if n > 0 then '','' else []) @ json_text x)"
    using Cons.prems by (intro writes_after) simp
  from writes_and_then [OF this Cons.IH [of "Suc n"]] Cons.prems
  have "writes (and_then (\<lambda>out. write_json x (out @ (if n > 0 then '','' else [])))
                         (write_json_items (Suc n) xs))
     (first_some (map json_error (x # xs)))
     (((if n > 0 then '','' else []) @ json_text x) @
      (if 0 < Suc n \<and> xs \<noteq> [] then '','' else []) @ commas (map json_text xs))"
    by simp
  moreover have "write_json_items n (x # xs) =
      and_then (\<lambda>out. write_json x (out @ (if n > 0 then '','' else []))) (write_json_items (Suc n) xs)"
    by (rule ext) (simp add: and_then_def)
  ultimately show ?case by (auto simp: commas_Cons)
qed

definition pair_error :: "pyobj \<times> pyobj \<Rightarrow> pyobj option" where
  "pair_error p = or_else (key_error (fst p)) (json_error (snd p))"

definition pair_text :: "pyobj \<times> pyobj \<Rightarrow> bytes" where
  "pair_text p = json_text (fst p) @ '':'' @ json_text (snd p)"

lemma json_PyDict:
  "json_error (PyDict es) = first_some (map pair_error es)"
  "json_text (PyDict es) = ''{'' @ commas (map pair_text es) @ ''}''"
  by (simp_all add: pair_error_def [abs_def] pair_text_def [abs_def] case_prod_unfold)

lemma write_json_string_text: "write_json_string s out = out @ json_text (PyStr s)"
  by (simp add: write_json_string_def write_chars_append)

definition write_key :: "pyobj \<Rightarrow> bytes \<Rightarrow> (pyobj + unit) \<times> bytes" where
  "write_key k out =
     (case k of
        PyStr s \<Rightarrow> (case to_str s of Inl e \<Rightarrow> (Inl e, out) | Inr t \<Rightarrow> (Inr (), write_json_string t out @ '':''))
      | _ \<Rightarrow> (Inl (key_type_error k), out))"

lemma writes_key: "writes (write_key k) (key_error k) (json_text k @ '':'')"
  by (cases k) (auto simp: writes_def write_key_def key_error_def str_error_def to_str_def
      write_json_string_text)

lemma entries_write:
  "\<forall>p \<in> set es. writes (write_json (snd p)) (json_error (snd p)) (json_text (snd p)) \<Longrightarrow>
   writes (write_json_entries first es) (first_some (map pair_error es))
     ((if \<not> first \<and> es \<noteq> [] then '','' else []) @ commas (map pair_text es))"
proof (induction es arbitrary: first)
  case Nil
  then show ?case by (simp add: writes_def)
next
  case (Cons p es)
  obtain k v where p: "p = (k, v)" by (cases p)
  let ?sep = "if first then [] else '',''"
  have "writes (\<lambda>out. and_then (write_key k) (write_json v) (out @ ?sep))
          (pair_error p) (?sep @ pair_text p)"
    using writes_and_then [OF writes_key, of "write_json v" "json_error v" "json_text v" k]
      Cons.prems p by (intro writes_after) (simp add: pair_error_def pair_text_def)
  from writes_and_then [OF this Cons.IH [of False]] Cons.prems
  have "writes (and_then (\<lambda>out. and_then (write_key k) (write_json v) (out @ ?sep))
                         (write_json_entries False es))
     (first_some (map pair_error (p # es)))
     (?sep @ pair_text p @ (if es \<noteq> [] then '','' else []) @ commas (map pair_text es))"
    by simp
  moreover have "write_json_entries first (p # es) =
      and_then (\<lambda>out. and_then (write_key k) (write_json v) (out @ ?sep)) (write_json_entries False es)"
    by (rule ext) (simp add: p and_then_def write_key_def Let_def split: pyobj.split sum.split prod.split)
  ultimately show ?case by (cases first; cases "es = []") (simp_all add: commas_Cons)
qed

lemma enclose: "writes w e t \<Longrightarrow>
  writes (and_then (\<lambda>out. w (out @ a)) (\<lambda>out. (Inr (), out @ b))) e (a @ t @ b)"
  using writes_and_then [OF writes_after [of w e t a] writes_pure [of b]] by simp

lemma sequence_write:
  assumes "\<And>x. x \<in> set xs \<Longrightarrow> writes (write_json x) (json_error x) (json_text x)"
  shows "writes (\<lambda>out. write_json_sequence xs out) (first_some (map json_error xs))
           (''['' @ commas (map json_text xs) @ '']'')"
proof -
  have "writes (write_json_items 0 xs) (first_some (map json_error xs)) (commas (map json_text xs))"
    using items_write [of xs 0] assms by simp
  from enclose [OF this, of "''[''" "'']''"] show ?thesis
    by (rule back_subst [of "\<lambda>w. writes w _ _"]) (rule ext, simp add: and_then_def)
qed

lemma write_json_writes: "writes (write_json v) (json_error v) (json_text v)"
proof (induction v)
  case (PyDict es)
  have "writes (write_json_entries True es) (first_some (map pair_error es)) (commas (map pair_text es))"
    using entries_write [of es True] PyDict by (auto simp: snds.simps)
  from enclose [OF this, of "''{''" "''}''"] show ?case
    unfolding json_PyDict
    by (rule back_subst [of "\<lambda>w. writes w _ _"]) (rule ext, simp add: and_then_def)
next
  case (PyList xs)
  then show ?case using sequence_write by simp
next
  case (PyTuple xs)
  then show ?case using sequence_write by simp
qed (auto simp: writes_def extract_i64_def checked_i64_def str_error_def to_str_def
      write_json_string_text)

end
