(* ===== verification/Rounding.thy ===== *)
theory Rounding
  imports Float64 Complex_Main
begin

text \<open>
  What the text of a float has to mean.  A binary64 number has a rational value, read off its fields;
  a rational number \<^emph>\<open>rounds to\<close> a float when no other float is nearer, ties going to the even
  fraction (round to nearest, as every reader of JSON numbers does it; the pattern of infinity counts
  with the value \<open>2 ^ 1024\<close>, from which on numbers overflow).  The decimal that \<open>shortest\<close> chooses
  rounds to the float it was chosen for.
\<close>

section \<open>The value of a float\<close>

definition f64_magnitude :: "f64 \<Rightarrow> rat" where
  "f64_magnitude b =
     (if f64_exponent b = 0 then of_nat (f64_fraction b) * 2 powi (- 1074)
      else of_nat (2 ^ 52 + f64_fraction b) * 2 powi (int (f64_exponent b) - 1075))"

definition f64_value :: "f64 \<Rightarrow> rat" where
  "f64_value b = (if f64_negative b then - f64_magnitude b else f64_magnitude b)"

definition rounds_to :: "rat \<Rightarrow> f64 \<Rightarrow> bool" where
  "rounds_to q b \<longleftrightarrow>
     (\<forall>c. \<bar>f64_value b - q\<bar> \<le> \<bar>f64_value c - q\<bar> \<and>
        (f64_value c \<noteq> f64_value b \<and> \<bar>f64_value c - q\<bar> = \<bar>f64_value b - q\<bar> \<longrightarrow> even (f64_fraction b)))"

section \<open>Neighbours\<close>

text \<open>Every magnitude is a significand times a power of two.\<close>

definition significand :: "f64 \<Rightarrow> nat" where
  "significand b = (if f64_exponent b = 0 then f64_fraction b else 2 ^ 52 + f64_fraction b)"

definition scale :: "f64 \<Rightarrow> int" where
  "scale b = (if f64_exponent b = 0 then 1 else int (f64_exponent b)) - 1075"

lemma magnitude_scaled: "f64_magnitude b = of_nat (significand b) * 2 powi scale b"
  by (simp add: f64_magnitude_def significand_def scale_def)

lemma fraction_less: "f64_fraction b < 2 ^ 52"
  by (simp add: f64_fraction_def)

lemma significand_less: "significand b < 2 ^ 53"
  using fraction_less [of b] by (simp add: significand_def)

lemma scale_cases: "scale b = - 1074 \<or> 2 ^ 52 \<le> significand b"
  by (simp add: scale_def significand_def)

lemma scale_least: "- 1074 \<le> scale b"
  by (simp add: scale_def)

lemma two_powi_mult: "(2 :: rat) powi k = 2 ^ nat (k - j) * 2 powi j" if "j \<le> k"
proof -
  have "(2 :: rat) powi k = 2 powi (int (nat (k - j)) + j)" using that by simp
  also have "\<dots> = 2 powi int (nat (k - j)) * 2 powi j" by (subst power_int_add) simp_all
  finally show ?thesis by (simp only: power_int_of_nat)
qed

text \<open>Above \<open>b\<close> the next magnitude is one unit further, below it one unit, or half of one at a power of two.\<close>

lemma next_above:
  assumes "f64_magnitude b < f64_magnitude c"
  shows "f64_magnitude b + 2 powi scale b \<le> f64_magnitude c"
proof (cases "scale b \<le> scale c")
  case True
  define u where "u = (2 :: rat) powi scale b"
  define m where "m = significand c * 2 ^ nat (scale c - scale b)"
  have u: "0 < u" by (simp add: u_def)
  have c: "f64_magnitude c = of_nat m * u"
    using two_powi_mult [OF True] by (simp add: magnitude_scaled m_def u_def)
  have b: "f64_magnitude b = of_nat (significand b) * u" by (simp add: magnitude_scaled u_def)
  have "(of_nat (significand b) :: rat) < of_nat m" using assms u unfolding b c by simp
  then have "(of_nat (significand b) + 1 :: rat) \<le> of_nat m"
    by (metis Suc_leI of_nat_Suc of_nat_le_iff of_nat_less_iff add.commute)
  from mult_right_mono [OF this, of u] u show ?thesis
    unfolding b c u_def [symmetric] by (simp add: algebra_simps)
next
  case False
  define w where "w = (2 :: rat) powi scale c"
  have w: "0 < w" by (simp add: w_def)
  obtain j where j: "nat (scale b - scale c) = Suc j" using False by (cases "nat (scale b - scale c)") auto
  have b: "f64_magnitude b = of_nat (significand b) * 2 ^ Suc j * w"
    using two_powi_mult [of "scale c" "scale b"] False by (simp add: magnitude_scaled j w_def)
  have "2 ^ 52 \<le> significand b" using False scale_least [of c] scale_cases [of b] by auto
  then have "(2 ^ 53 :: nat) \<le> significand b * 2 ^ Suc j"
    using mult_le_mono [of "2 ^ 52" "significand b" 2 "2 ^ Suc j"] by simp
  then have "significand c \<le> significand b * 2 ^ Suc j" using significand_less [of c] by linarith
  then have "(of_nat (significand c) :: rat) \<le> of_nat (significand b * 2 ^ Suc j)" by (rule of_nat_mono)
  from mult_right_mono [OF this, of w] w have "of_nat (significand c) * w \<le> f64_magnitude b"
    by (simp add: b)
  then have "f64_magnitude c \<le> f64_magnitude b" by (simp add: magnitude_scaled [of c] w_def)
  with assms show ?thesis by simp
qed

lemma next_below:
  assumes "f64_magnitude c < f64_magnitude b"
  shows "f64_magnitude c \<le> f64_magnitude b - (if f64_exponent b \<noteq> 0 \<and> f64_fraction b = 0 then 1 / 2 else 1) * 2 powi scale b"
proof (cases "scale b \<le> scale c")
  case True
  define u where "u = (2 :: rat) powi scale b"
  define m where "m = significand c * 2 ^ nat (scale c - scale b)"
  have u: "0 < u" by (simp add: u_def)
  have c: "f64_magnitude c = of_nat m * u"
    using two_powi_mult [OF True] by (simp add: magnitude_scaled m_def u_def)
  have b: "f64_magnitude b = of_nat (significand b) * u" by (simp add: magnitude_scaled u_def)
  have "(of_nat m :: rat) < of_nat (significand b)" using assms u unfolding b c by simp
  then have "(of_nat m + 1 :: rat) \<le> of_nat (significand b)"
    by (metis Suc_leI of_nat_Suc of_nat_le_iff of_nat_less_iff add.commute)
  from mult_right_mono [OF this, of u] u show ?thesis
    unfolding b c u_def [symmetric] by (simp add: algebra_simps)
next
  case False
  define w where "w = (2 :: rat) powi scale c"
  have w: "0 < w" by (simp add: w_def)
  obtain j where j: "nat (scale b - scale c) = Suc j" using False by (cases "nat (scale b - scale c)") auto
  have u: "2 powi scale b = 2 ^ Suc j * w"
    using two_powi_mult [of "scale c" "scale b"] False by (simp add: j w_def)
  have e: "f64_exponent b \<noteq> 0" using False scale_least [of c] by (simp add: scale_def split: if_splits)
  have "(of_nat (significand c) :: rat) \<le> 2 ^ 53 - 1"
    using significand_less [of c] by (metis One_nat_def Suc_leI Suc_pred diff_Suc_1 less_Suc_eq_le of_nat_1
      of_nat_diff of_nat_le_iff of_nat_numeral of_nat_power one_le_numeral one_le_power zero_less_numeral zero_less_power)
  moreover have "(1 :: rat) \<le> 2 ^ j" by simp
  ultimately have c: "of_nat (significand c) \<le> (2 ^ 53 - 1) * (2 :: rat) ^ j"
    by (metis (no_types, lifting) diff_ge_0_iff_ge mult_left_mono mult.right_neutral one_le_numeral one_le_power order_trans)
  have "of_nat (significand b) - (if f64_fraction b = 0 then 1 / 2 else 1) \<ge> (2 ^ 52 - 1 / 2 :: rat)"
    using e by (simp add: significand_def)
  from mult_right_mono [OF this, of "2 ^ Suc j"]
  have "of_nat (significand c) \<le> (of_nat (significand b) - (if f64_fraction b = 0 then 1 / 2 else 1)) * (2 :: rat) ^ Suc j"
    using c by (simp add: algebra_simps)
  from mult_right_mono [OF this, of w] w e show ?thesis
    unfolding magnitude_scaled [of b] u by (simp add: magnitude_scaled [of c] w_def [symmetric] algebra_simps)
qed

section \<open>The chosen decimal\<close>

definition wf_decoded :: "decoded \<Rightarrow> bool" where
  "wf_decoded d \<longleftrightarrow> 2 \<le> mant d \<and> dminus d = 1 \<and> 0 < dplus d \<and> - 1076 \<le> bexp d"

lemma f64_decode_wf: "f64_is_finite b \<Longrightarrow> \<not> f64_is_zero b \<Longrightarrow> wf_decoded (f64_decode b)"
  by (auto simp: wf_decoded_def f64_decode_def f64_is_zero_def Let_def)

lemma scale_pos [simp]: "0 < num_scale d k" "0 < unit_scale d k" "num_scale d k \<noteq> 0"
  by (simp_all add: num_scale_def unit_scale_def)

lemma inside_pos: "wf_decoded d \<Longrightarrow> inside d k n \<Longrightarrow> 0 < n"
  by (cases n) (auto simp: inside_def wf_decoded_def Let_def split: if_splits)

text \<open>At the last power of ten a multiple of the unit is inside.\<close>

lemma inside_last:
  assumes "wf_decoded d"
  shows "inside d (- 324) (below d (- 324))"
proof -
  let ?x = "mant d * num_scale d (- 324)" and ?u = "unit_scale d (- 324)"
  have "(2::nat) ^ 1076 \<le> 10 ^ 324" by simp
  moreover have "(2::nat) ^ nat (- bexp d) \<le> 2 ^ 1076"
    using assms by (intro power_increasing) (auto simp: wf_decoded_def)
  ultimately have "?u \<le> 10 ^ 324" by (simp add: unit_scale_def)
  also have "10 ^ 324 \<le> num_scale d (- 324)" by (simp add: num_scale_def)
  finally have u: "?u \<le> num_scale d (- 324)" .
  have m: "?x = below d (- 324) * ?u + ?x mod ?u" by (simp only: below_def div_mult_mod_eq)
  have r: "?x mod ?u < ?u" by simp
  have x: "below d (- 324) * ?u \<le> ?x" "?x < below d (- 324) * ?u + num_scale d (- 324)"
    using m r u by linarith+
  have n: "0 < num_scale d (- 324)" by simp
  have "num_scale d (- 324) \<le> ?x" using assms by (simp add: wf_decoded_def)
  then have "?x - num_scale d (- 324) < below d (- 324) * ?u" using x(2) by linarith
  then have lo: "(mant d - dminus d) * num_scale d (- 324) < below d (- 324) * ?u"
    using assms by (simp add: wf_decoded_def diff_mult_distrib)
  have "num_scale d (- 324) \<le> dplus d * num_scale d (- 324)" using assms by (simp add: wf_decoded_def)
  then have hi: "below d (- 324) * ?u < (mant d + dplus d) * num_scale d (- 324)"
    using x(1) n unfolding add_mult_distrib by linarith
  show ?thesis using lo hi by (simp add: inside_def Let_def)
qed

lemma pick_inside:
  "inside d k (below d k) \<or> inside d k (Suc (below d k)) \<Longrightarrow> inside d k (pick d k)"
  by (auto simp: pick_def Let_def)

lemma shortest_inside:
  "wf_decoded d \<Longrightarrow> - 324 \<le> k \<Longrightarrow> shortest d k = (n, j) \<Longrightarrow> inside d j n \<and> - 324 \<le> j"
proof (induction d k rule: shortest.induct)
  case (1 d k)
  show ?case
  proof (cases "inside d k (below d k) \<or> inside d k (Suc (below d k)) \<or> k \<le> - 324")
    case True
    then have "(n, j) = (pick d k, k)" using "1.prems"(3) by (subst (asm) shortest.simps) auto
    moreover have "inside d k (below d k) \<or> inside d k (Suc (below d k))"
      using True inside_last [OF "1.prems"(1)] "1.prems"(2) by (metis order_antisym)
    ultimately show ?thesis using pick_inside "1.prems"(2) by simp
  next
    case False
    with 1 show ?thesis by (subst (asm) (2) shortest.simps) simp
  qed
qed

section \<open>The decimal rounds to the float\<close>

lemma scales_meet: "of_nat (num_scale d k) * (10 :: rat) powi k = of_nat (unit_scale d k) * 2 powi bexp d"
  by (simp add: num_scale_def unit_scale_def power_int_def field_simps)

lemma compare_scaled:
  fixes d k x y
  defines "m \<equiv> of_nat x * (10 :: rat) powi k" and "v \<equiv> of_nat y * (2 :: rat) powi bexp d"
  shows "x * unit_scale d k \<le> y * num_scale d k \<longleftrightarrow> m \<le> v" "y * num_scale d k \<le> x * unit_scale d k \<longleftrightarrow> v \<le> m"
    "x * unit_scale d k < y * num_scale d k \<longleftrightarrow> m < v" "y * num_scale d k < x * unit_scale d k \<longleftrightarrow> v < m"
proof -
  define U where "U = (of_nat (unit_scale d k) :: rat)"
  have U: "0 < U" by (simp add: U_def)
  have p: "(0 :: rat) < 10 powi k" by simp
  have x: "of_nat (x * unit_scale d k) * (10 :: rat) powi k = U * m" by (simp add: m_def U_def)
  have y: "of_nat (y * num_scale d k) * (10 :: rat) powi k = U * v"
    using scales_meet [of d k] by (simp add: v_def U_def algebra_simps)
  have le: "i \<le> j \<longleftrightarrow> of_nat i * (10 :: rat) powi k \<le> of_nat j * 10 powi k" for i j using p by simp
  have lt: "i < j \<longleftrightarrow> of_nat i * (10 :: rat) powi k < of_nat j * 10 powi k" for i j using p by simp
  show "x * unit_scale d k \<le> y * num_scale d k \<longleftrightarrow> m \<le> v" "y * num_scale d k \<le> x * unit_scale d k \<longleftrightarrow> v \<le> m"
    unfolding le x y using U by simp_all
  show "x * unit_scale d k < y * num_scale d k \<longleftrightarrow> m < v" "y * num_scale d k < x * unit_scale d k \<longleftrightarrow> v < m"
    unfolding lt x y using U by simp_all
qed

lemma inside_interval:
  assumes "wf_decoded d" "inside d k n"
  defines "m \<equiv> of_nat n * (10 :: rat) powi k" and "u \<equiv> (2 :: rat) powi bexp d"
  shows "of_nat (mant d) * u - u \<le> m" "m \<le> of_nat (mant d) * u + of_nat (dplus d) * u"
    "inclusive d \<or> of_nat (mant d) * u - u < m \<and> m < of_nat (mant d) * u + of_nat (dplus d) * u"
proof -
  have lo: "of_nat (mant d - dminus d) * u = of_nat (mant d) * u - u"
    using assms(1) by (simp add: wf_decoded_def of_nat_diff algebra_simps)
  have hi: "of_nat (mant d + dplus d) * u = of_nat (mant d) * u + of_nat (dplus d) * u"
    by (simp add: algebra_simps)
  have "if inclusive d
      then of_nat (mant d - dminus d) * u \<le> m \<and> m \<le> of_nat (mant d + dplus d) * u
      else of_nat (mant d - dminus d) * u < m \<and> m < of_nat (mant d + dplus d) * u"
    using assms(2) unfolding inside_def Let_def compare_scaled m_def u_def .
  then show "of_nat (mant d) * u - u \<le> m" "m \<le> of_nat (mant d) * u + of_nat (dplus d) * u"
    "inclusive d \<or> of_nat (mant d) * u - u < m \<and> m < of_nat (mant d) * u + of_nat (dplus d) * u"
    unfolding lo hi by (auto split: if_splits)
qed

text \<open>How the decoded form relates to the value and to the neighbours.\<close>

lemma decode_value:
  fixes b
  defines "d \<equiv> f64_decode b" and "u \<equiv> (2 :: rat) powi bexp (f64_decode b)"
  shows "f64_magnitude b = of_nat (mant d) * u" "2 powi scale b = 2 * of_nat (dplus d) * u"
    "(if f64_exponent b \<noteq> 0 \<and> f64_fraction b = 0 then 1 / 2 else 1) * 2 powi scale b = 2 * u"
    "0 < u" "0 < dplus d" "inclusive d \<Longrightarrow> f64_exponent b \<noteq> 0 \<Longrightarrow> even (f64_fraction b)"
proof -
  have *: "(2 :: rat) powi - 1074 = 2 * 2 powi - 1075"
    using two_powi_mult [of "- 1075" "- 1074"] by simp
  have **: "(2 :: rat) powi (int e - 1075) = 2 * 2 powi (int e - 1076)"
    "(2 :: rat) powi (int e - 1075) = 4 * 2 powi (int e - 1077)" for e
    using two_powi_mult [of "int e - 1076" "int e - 1075"] two_powi_mult [of "int e - 1077" "int e - 1075"]
    by simp_all
  have "f64_magnitude b = of_nat (mant d) * u \<and> 2 powi scale b = 2 * of_nat (dplus d) * u \<and>
    (if f64_exponent b \<noteq> 0 \<and> f64_fraction b = 0 then 1 / 2 else 1) * 2 powi scale b = 2 * u"
  proof (cases "f64_exponent b = 0")
    case True
    then show ?thesis using * by (simp add: d_def u_def f64_decode_def Let_def f64_magnitude_def scale_def)
  next
    case e: False
    show ?thesis
    proof (cases "f64_fraction b = 0")
      case True
      with e **(2) [of "f64_exponent b"] show ?thesis
        by (simp add: d_def u_def f64_decode_def Let_def f64_magnitude_def scale_def)
    next
      case False
      with e **(1) [of "f64_exponent b"] show ?thesis
        by (simp add: d_def u_def f64_decode_def Let_def f64_magnitude_def scale_def algebra_simps)
    qed
  qed
  then show "f64_magnitude b = of_nat (mant d) * u" "2 powi scale b = 2 * of_nat (dplus d) * u"
    "(if f64_exponent b \<noteq> 0 \<and> f64_fraction b = 0 then 1 / 2 else 1) * 2 powi scale b = 2 * u"
    by blast+
  show "0 < u" by (simp add: u_def)
  show "0 < dplus d" "inclusive d \<Longrightarrow> f64_exponent b \<noteq> 0 \<Longrightarrow> even (f64_fraction b)"
    by (simp_all add: d_def f64_decode_def Let_def split: if_splits)
qed

text \<open>A subnormal number is never printed as a decimal half-way to its neighbour: that one has more digits.\<close>

lemma subnormal_no_tie:
  assumes "of_nat n * (10 :: rat) powi k = of_nat m * 2 powi - 1075" "- 324 \<le> k" "odd m"
  shows False
proof -
  have k: "(10 :: rat) powi k * 10 ^ 324 = 10 ^ nat (k + 324)"
  proof -
    have "(10 :: rat) ^ nat (k + 324) = 10 powi (k + 324)" using assms(2) by (simp add: power_int_def)
    also have "\<dots> = 10 powi k * 10 powi 324" by (subst power_int_add) simp_all
    finally show ?thesis by simp
  qed
  have "of_nat n * (10 :: rat) powi k * 10 ^ 324 * 2 ^ 751 = of_nat m * 2 powi - 1075 * 10 ^ 324 * 2 ^ 751"
    unfolding assms(1) ..
  also have "of_nat n * (10 :: rat) powi k * 10 ^ 324 * 2 ^ 751 = of_nat (n * 10 ^ nat (k + 324) * 2 ^ 751)"
    using k by (simp add: mult.assoc)
  also have "of_nat m * (2 :: rat) powi - 1075 * 10 ^ 324 * 2 ^ 751 = of_nat (m * 5 ^ 324)"
    by (simp add: power_int_def field_simps)
  finally have "n * 10 ^ nat (k + 324) * 2 ^ 751 = m * 5 ^ 324" by (simp only: of_nat_eq_iff)
  moreover have "even (n * 10 ^ nat (k + 324) * 2 ^ 751)" by simp
  ultimately show False using assms(3) by simp
qed

text \<open>Among the magnitudes, that of \<open>b\<close> is nearest to a decimal inside its interval.\<close>

lemma inside_nearest:
  assumes "wf_decoded (f64_decode b)" "inside (f64_decode b) k n" "- 324 \<le> k"
  defines "m \<equiv> of_nat n * (10 :: rat) powi k"
  shows "\<bar>f64_magnitude b - m\<bar> \<le> \<bar>f64_magnitude c - m\<bar>"
    "f64_magnitude c \<noteq> f64_magnitude b \<Longrightarrow> \<bar>f64_magnitude c - m\<bar> = \<bar>f64_magnitude b - m\<bar> \<Longrightarrow> even (f64_fraction b)"
proof -
  let ?d = "f64_decode b" and ?u = "(2 :: rat) powi bexp (f64_decode b)"
  note v = decode_value [of b] and i = inside_interval [OF assms(1,2), folded m_def]
  have above: "f64_magnitude b + 2 * (of_nat (dplus ?d) * ?u) \<le> f64_magnitude c" if "f64_magnitude b < f64_magnitude c"
    using next_above [OF that] v(2) by simp
  have below: "f64_magnitude c \<le> f64_magnitude b - 2 * ?u" if "f64_magnitude c < f64_magnitude b"
    using next_below [OF that] v(3) by simp
  have bounds: "f64_magnitude b - ?u \<le> m" "m \<le> f64_magnitude b + of_nat (dplus ?d) * ?u" using i v(1) by simp_all
  have pos: "0 < ?u" "0 < of_nat (dplus ?d) * ?u" using v(4,5) by simp_all
  show "\<bar>f64_magnitude b - m\<bar> \<le> \<bar>f64_magnitude c - m\<bar>"
    using above below bounds pos by (cases "f64_magnitude b" "f64_magnitude c" rule: linorder_cases) auto
  assume ne: "f64_magnitude c \<noteq> f64_magnitude b" and tie: "\<bar>f64_magnitude c - m\<bar> = \<bar>f64_magnitude b - m\<bar>"
  have edge: "m = of_nat (mant ?d) * ?u + of_nat (dplus ?d) * ?u \<or> m = of_nat (mant ?d) * ?u - ?u"
    using ne tie above below bounds pos v(1)
    by (cases "f64_magnitude b" "f64_magnitude c" rule: linorder_cases) auto
  then have "inclusive ?d" using i(3) by auto
  moreover have "f64_exponent b \<noteq> 0"
  proof
    assume e: "f64_exponent b = 0"
    let ?f = "f64_fraction b"
    have d: "mant ?d = 2 * ?f" "dplus ?d = 1" "bexp ?d = - 1075" using e by (simp_all add: f64_decode_def)
    have "0 < ?f" using assms(1) d by (simp add: wf_decoded_def)
    then have "m = of_nat (2 * ?f + 1) * 2 powi - 1075 \<or> m = of_nat (2 * ?f - 1) * 2 powi - 1075"
      using edge by (auto simp: d of_nat_diff algebra_simps)
    then show False
    proof
      assume "m = of_nat (2 * ?f + 1) * 2 powi - 1075"
      from subnormal_no_tie [OF this [unfolded m_def] assms(3)] show False by simp
    next
      assume "m = of_nat (2 * ?f - 1) * 2 powi - 1075"
      from subnormal_no_tie [OF this [unfolded m_def] assms(3)] \<open>0 < ?f\<close> show False by simp
    qed
  qed
  ultimately show "even (f64_fraction b)" using v(6) by blast
qed

text \<open>The decimal that is printed, and that it rounds to the float.\<close>

definition f64_decimal :: "f64 \<Rightarrow> rat" where
  "f64_decimal b =
     (let m = (if f64_is_zero b then 0
               else let d = f64_decode b; (n, k) = shortest d (top_power d)
                    in of_nat n * 10 powi k)
      in if f64_negative b then - m else m)"

lemma magnitude_nonneg: "0 \<le> f64_magnitude b"
  by (simp add: magnitude_scaled)

lemma nearest_signed:
  assumes "\<And>c. \<bar>f64_magnitude b - m\<bar> \<le> \<bar>f64_magnitude c - m\<bar>"
    and "\<And>c. f64_magnitude c \<noteq> f64_magnitude b \<Longrightarrow> \<bar>f64_magnitude c - m\<bar> = \<bar>f64_magnitude b - m\<bar> \<Longrightarrow> even (f64_fraction b)"
    and "0 < m"
  shows "rounds_to (if f64_negative b then - m else m) b"
  unfolding rounds_to_def
proof (intro allI conjI impI)
  fix c
  let ?q = "if f64_negative b then - m else m"
  have b: "\<bar>f64_value b - ?q\<bar> = \<bar>f64_magnitude b - m\<bar>" by (auto simp: f64_value_def)
  have c: "\<bar>f64_value c - ?q\<bar> = (if f64_negative c = f64_negative b then \<bar>f64_magnitude c - m\<bar> else f64_magnitude c + m)"
    using assms(3) magnitude_nonneg [of c] by (auto simp: f64_value_def abs_if)
  have le: "\<bar>f64_magnitude c - m\<bar> \<le> f64_magnitude c + m" using assms(3) magnitude_nonneg [of c] by simp
  show "\<bar>f64_value b - ?q\<bar> \<le> \<bar>f64_value c - ?q\<bar>" unfolding b c using assms(1) [of c] le by simp
  assume tie: "f64_value c \<noteq> f64_value b \<and> \<bar>f64_value c - ?q\<bar> = \<bar>f64_value b - ?q\<bar>"
  have "\<bar>f64_magnitude c - m\<bar> = \<bar>f64_magnitude b - m\<bar>"
    using tie assms(1) [of c] le unfolding b c by (auto split: if_splits)
  moreover have "f64_magnitude c \<noteq> f64_magnitude b"
    using tie assms(1) [of c] assms(3) magnitude_nonneg [of c] unfolding b c
    by (auto simp: f64_value_def split: if_splits)
  ultimately show "even (f64_fraction b)" by (rule assms(2) [rotated])
qed

lemma decimal_rounds_to:
  assumes "f64_is_finite b"
  shows "rounds_to (f64_decimal b) b"
proof (cases "f64_is_zero b")
  case True
  then have "f64_value b = 0" "f64_decimal b = 0"
    by (simp_all add: f64_is_zero_def f64_value_def f64_magnitude_def f64_decimal_def)
  then show ?thesis by (simp add: rounds_to_def)
next
  case False
  let ?d = "f64_decode b"
  obtain n k where nk: "shortest ?d (top_power ?d) = (n, k)" by fastforce
  have wf: "wf_decoded ?d" by (rule f64_decode_wf [OF assms False])
  have i: "inside ?d k n" "- 324 \<le> k" using shortest_inside [OF wf _ nk] by (simp_all add: top_power_def)
  have "0 < n" by (rule inside_pos [OF wf i(1)])
  then have "0 < (of_nat n :: rat) * 10 powi k" by simp
  moreover have "even (f64_fraction b)"
    if "f64_magnitude c \<noteq> f64_magnitude b"
      "\<bar>f64_magnitude c - of_nat n * 10 powi k\<bar> = \<bar>f64_magnitude b - of_nat n * 10 powi k\<bar>" for c
    using inside_nearest(2) [OF wf i that] .
  ultimately have "rounds_to (if f64_negative b then - (of_nat n * 10 powi k) else of_nat n * 10 powi k) b"
    by (intro nearest_signed inside_nearest(1) [OF wf i])
  with False nk show ?thesis by (simp add: f64_decimal_def Let_def)
qed

end
