(* ===== verification/Json.thy ===== *)
theory Json
  imports Schema Rounding
begin

text \<open>
  What the serializer's output means: a reader for RFC 8259 texts (strict UTF-8, escapes of
  single code points, no surrogate pairs, which the serializer never writes) and the proof that
  it reads every successful output of \<open>write_json\<close> back as the value that was written.
\<close>

section \<open>A reader for JSON texts\<close>

datatype json =
    JNull
  | JBool bool
  | JNum rat
  | JStr rstr
  | JArr "json list"
  | JObj "(rstr \<times> json) list"

definition is_ws :: "char \<Rightarrow> bool" where
  "is_ws c \<longleftrightarrow> c = CHR 0x20 \<or> c = CHR 0x09 \<or> c = CHR 0x0A \<or> c = CHR 0x0D"

definition skip_ws :: "bytes \<Rightarrow> bytes" where
  "skip_ws = dropWhile is_ws"

definition hex_value :: "char \<Rightarrow> nat option" where
  "hex_value c =
     (let x = of_char c in
      if 48 \<le> x \<and> x < 58 then Some (x - 48)
      else if 97 \<le> x \<and> x < 103 then Some (x - 87)
      else if 65 \<le> x \<and> x < 71 then Some (x - 55)
      else None)"

fun hex4 :: "bytes \<Rightarrow> (nat \<times> bytes) option" where
  "hex4 (a # b # c # d # r) =
     (case (hex_value a, hex_value b, hex_value c, hex_value d) of
        (Some x, Some y, Some z, Some w) \<Rightarrow> Some (x * 4096 + y * 256 + z * 16 + w, r)
      | _ \<Rightarrow> None)"
| "hex4 _ = None"

definition simple_escape :: "char \<Rightarrow> nat option" where
  "simple_escape c =
     (if c = CHR 0x22 then Some 34 else if c = CHR 0x5C then Some 92 else if c = CHR ''/'' then Some 47
      else if c = CHR ''b'' then Some 8 else if c = CHR ''f'' then Some 12
      else if c = CHR ''n'' then Some 10 else if c = CHR ''r'' then Some 13
      else if c = CHR ''t'' then Some 9 else None)"

text \<open>One character of a string: an escape, or the UTF-8 encoding of a code point.\<close>

definition json_char :: "bytes \<Rightarrow> (nat \<times> bytes) option" where
  "json_char bs =
     (case bs of
        [] \<Rightarrow> None
      | b # r \<Rightarrow>
          if b = CHR 0x5C then
            (case r of
               [] \<Rightarrow> None
             | e # r' \<Rightarrow>
                 if e = CHR ''u'' then
                   (case hex4 r' of
                      Some (c, r'') \<Rightarrow> if is_scalar c then Some (c, r'') else None
                    | None \<Rightarrow> None)
                 else map_option (\<lambda>c. (c, r')) (simple_escape e))
          else if b = CHR 0x22 \<or> of_char b < (0x20::nat) then None
          else utf8_decode1 bs)"

lemma hex4_shorter: "hex4 bs = Some (c, r) \<Longrightarrow> length r < length bs"
  by (induction bs rule: hex4.induct) (auto split: option.splits)

lemma json_char_shorter: "json_char bs = Some (c, r) \<Longrightarrow> length r < length bs"
  by (auto simp: json_char_def dest: utf8_decode1_shorter hex4_shorter
      split: list.splits if_splits option.splits)

function json_chars :: "bytes \<Rightarrow> (rstr \<times> bytes) option" where
  "json_chars bs =
     (case bs of
        [] \<Rightarrow> None
      | b # r \<Rightarrow>
          if b = CHR 0x22 then Some ([], r)
          else (case json_char bs of
                  None \<Rightarrow> None
                | Some (c, r') \<Rightarrow> map_option (\<lambda>(cs, r''). (c # cs, r'')) (json_chars r')))"
  by pat_completeness auto
termination
  by (relation "measure length") (auto dest: json_char_shorter)

declare json_chars.simps [simp del]

definition dig :: "char \<Rightarrow> bool" where
  "dig c \<longleftrightarrow> is_digit (of_char c)"

fun json_fraction :: "bytes \<Rightarrow> (string \<times> bytes) option" where
  "json_fraction [] = Some ([], [])"
| "json_fraction (c # r) =
     (if c = CHR ''.'' then
        (let f = takeWhile dig r in if f = [] then None else Some (f, dropWhile dig r))
      else Some ([], c # r))"

fun json_exponent :: "bytes \<Rightarrow> (int \<times> bytes) option" where
  "json_exponent [] = Some (0, [])"
| "json_exponent (c # r) =
     (if c = CHR ''e'' \<or> c = CHR ''E'' then
        (let (neg, s) = (case r of x # r' \<Rightarrow> if x = CHR ''-'' then (True, r')
                                           else if x = CHR ''+'' then (False, r') else (False, r)
                           | [] \<Rightarrow> (False, []));
             ds = takeWhile dig s; n = int (digits_value 0 (lit ds))
         in if ds = [] then None else Some (if neg then - n else n, dropWhile dig s))
      else Some (0, c # r))"

definition power10 :: "int \<Rightarrow> rat" where
  "power10 k = (if 0 \<le> k then 10 ^ nat k else 1 / 10 ^ nat (- k))"

definition json_magnitude :: "bytes \<Rightarrow> (rat \<times> bytes) option" where
  "json_magnitude bs =
     (let ip = takeWhile dig bs in
      if ip = [] \<or> (hd ip = CHR ''0'' \<and> length ip > 1) then None
      else case json_fraction (dropWhile dig bs) of
        None \<Rightarrow> None
      | Some (fp, r) \<Rightarrow>
          map_option
            (\<lambda>(e, r'). (of_nat (digits_value 0 (lit (ip @ fp))) * power10 (e - int (length fp)), r'))
            (json_exponent r))"

definition json_number :: "bytes \<Rightarrow> (rat \<times> bytes) option" where
  "json_number bs =
     (case bs of
        c # r \<Rightarrow> if c = CHR ''-'' then map_option (\<lambda>(x, r'). (- x, r')) (json_magnitude r)
               else json_magnitude bs
      | [] \<Rightarrow> None)"

definition expect :: "bytes \<Rightarrow> 'a \<Rightarrow> bytes \<Rightarrow> ('a \<times> bytes) option" where
  "expect w x bs = (if take (length w) bs = w then Some (x, drop (length w) bs) else None)"

text \<open>
  Recursive descent with fuel: every call spends one unit and consumes at least one byte, so the
  length of the text is enough.
\<close>

fun json_value :: "nat \<Rightarrow> bytes \<Rightarrow> (json \<times> bytes) option"
  and json_items :: "nat \<Rightarrow> bytes \<Rightarrow> (json list \<times> bytes) option"
  and json_members :: "nat \<Rightarrow> bytes \<Rightarrow> ((rstr \<times> json) list \<times> bytes) option"
where
  "json_value 0 bs = None"
| "json_value (Suc n) bs =
     (case skip_ws bs of
        [] \<Rightarrow> None
      | c # r \<Rightarrow>
          if c = CHR ''['' then
            (case skip_ws r of
               [] \<Rightarrow> None
             | d # r' \<Rightarrow> if d = CHR '']'' then Some (JArr [], r')
                       else map_option (\<lambda>(xs, s). (JArr xs, s)) (json_items n r))
          else if c = CHR ''{'' then
            (case skip_ws r of
               [] \<Rightarrow> None
             | d # r' \<Rightarrow> if d = CHR ''}'' then Some (JObj [], r')
                       else map_option (\<lambda>(ms, s). (JObj ms, s)) (json_members n r))
          else if c = CHR 0x22 then map_option (\<lambda>(t, s). (JStr t, s)) (json_chars r)
          else if c = CHR ''n'' then expect ''null'' JNull (c # r)
          else if c = CHR ''t'' then expect ''true'' (JBool True) (c # r)
          else if c = CHR ''f'' then expect ''false'' (JBool False) (c # r)
          else map_option (\<lambda>(x, s). (JNum x, s)) (json_number (c # r)))"
| "json_items 0 bs = None"
| "json_items (Suc n) bs =
     (case json_value n bs of
        None \<Rightarrow> None
      | Some (x, r) \<Rightarrow>
          (case skip_ws r of
             [] \<Rightarrow> None
           | d # r' \<Rightarrow>
               if d = CHR '','' then map_option (\<lambda>(xs, s). (x # xs, s)) (json_items n r')
               else if d = CHR '']'' then Some ([x], r') else None))"
| "json_members 0 bs = None"
| "json_members (Suc n) bs =
     (case skip_ws bs of
        [] \<Rightarrow> None
      | q # r \<Rightarrow>
          if q \<noteq> CHR 0x22 then None
          else case json_chars r of
            None \<Rightarrow> None
          | Some (k, r1) \<Rightarrow>
              (case skip_ws r1 of
                 [] \<Rightarrow> None
               | c # r2 \<Rightarrow>
                   if c \<noteq> CHR '':'' then None
                   else case json_value n r2 of
                     None \<Rightarrow> None
                   | Some (x, r3) \<Rightarrow>
                       (case skip_ws r3 of
                          [] \<Rightarrow> None
                        | d # r4 \<Rightarrow>
                            if d = CHR '','' then map_option (\<lambda>(ms, s). ((k, x) # ms, s)) (json_members n r4)
                            else if d = CHR ''}'' then Some ([(k, x)], r4) else None)))"

definition json_read :: "bytes \<Rightarrow> json option" where
  "json_read bs =
     (case json_value (length bs) bs of
        Some (j, r) \<Rightarrow> if skip_ws r = [] then Some j else None
      | None \<Rightarrow> None)"

section \<open>Strings\<close>

lemma hex_value_hex_digit [dec_simps]: "n < 16 \<Longrightarrow> hex_value (hex_digit n) = Some n"
  by (auto simp: hex_value_def hex_digit_def Let_def)

lemma hd_utf8_char: "(of_char (hd (utf8_char c)) :: nat) = c \<or> 128 \<le> (of_char (hd (utf8_char c)) :: nat)" if "is_scalar c"
proof -
  have "c < 0x110000" using that by (auto simp: is_scalar_def)
  then have "c div 64 < 17408" "c div 4096 < 272" "c div 262144 < 5" by auto
  moreover have "c < 0x800 \<Longrightarrow> c div 64 < 32" "c < 0x10000 \<Longrightarrow> c div 4096 < 16" by auto
  ultimately show ?thesis by (auto simp: utf8_char_def)
qed

lemma small_char: "c < 32 \<Longrightarrow> (c::nat) div 4096 = 0 \<and> c div 256 = 0 \<and> c div 16 * 16 + c mod 16 = c \<and> c div 16 < 16"
  by auto

lemma json_char_escape [dec_simps]:
  assumes "is_scalar c"
  shows "json_char (escape_char c @ rest) = Some (c, rest)"
proof (cases "c = 34 \<or> c = 92 \<or> c < 32")
  case True
  then show ?thesis
    using assms small_char [of c]
    by (auto simp: escape_char_def json_char_def simple_escape_def dec_simps)
next
  case False
  then have esc: "escape_char c = utf8_char c" by (auto simp: escape_char_def)
  obtain b bs where u: "utf8_char c = b # bs" by (cases "utf8_char c") auto
  have "(of_char b :: nat) = c \<or> 128 \<le> (of_char b :: nat)"
    using hd_utf8_char [OF assms] u by simp
  then have "b \<noteq> CHR 0x5C" "b \<noteq> CHR 0x22" "\<not> of_char b < (32::nat)"
    using False by auto
  with u utf8_decode1_utf8_char [OF assms, of rest] esc show ?thesis
    by (simp add: json_char_def)
qed

interpretation escc: codec escape_char json_char is_scalar "\<lambda>_. True"
  by unfold_locales (rule json_char_escape)

lemma escape_char_hd: "is_scalar c \<Longrightarrow> \<exists>b bs. escape_char c = b # bs \<and> b \<noteq> CHR 0x22"
  using json_char_escape [of c "[]"] by (cases "escape_char c") (auto simp: json_char_def)

lemma json_chars_escaped [dec_simps]:
  "list_all is_scalar s \<Longrightarrow> json_chars (concat (map escape_char s) @ CHR 0x22 # rest) = Some (s, rest)"
proof (induction s)
  case Nil
  show ?case by (subst json_chars.simps) simp
next
  case (Cons c s)
  obtain b bs where "escape_char c = b # bs" "b \<noteq> CHR 0x22"
    using escape_char_hd [of c] Cons.prems by auto
  then show ?case
    using Cons json_char_escape [of c "concat (map escape_char s) @ CHR 0x22 # rest"]
    by (subst json_chars.simps) simp
qed

section \<open>Numbers\<close>

definition number_end :: "bytes \<Rightarrow> bool" where
  "number_end rest \<longleftrightarrow> rest = [] \<or> hd rest \<in> {CHR '','', CHR '']'', CHR ''}''}"

lemma number_end_simps [simp]: "number_end []" "number_end (CHR '','' # r)" "number_end (CHR '']'' # r)" "number_end (CHR ''}'' # r)"
  by (simp_all add: number_end_def)

lemma list_all_dig: "list_all dig ds \<longleftrightarrow> list_all is_digit (lit ds)"
  by (induction ds) (auto simp: dig_def)

lemma takeWhile_dig:
  assumes "list_all dig ds" "rest = [] \<or> \<not> dig (hd rest)"
  shows "takeWhile dig (ds @ rest) = ds" "dropWhile dig (ds @ rest) = rest"
proof -
  have "\<forall>x\<in>set ds. dig x" using assms(1) by (simp add: list_all_iff)
  moreover have "takeWhile dig rest = []" "dropWhile dig rest = rest"
    using assms(2) by (cases rest; simp)+
  ultimately show "takeWhile dig (ds @ rest) = ds" "dropWhile dig (ds @ rest) = rest"
    by (simp_all add: takeWhile_append2 dropWhile_append2)
qed

lemma stop_dig: "number_end rest \<Longrightarrow> rest = [] \<or> \<not> dig (hd rest)"
  by (auto simp: number_end_def dig_def is_digit_def)

lemma stop_tail: "number_end rest \<Longrightarrow> json_fraction rest = Some ([], rest)" "number_end rest \<Longrightarrow> json_exponent rest = Some (0, rest)"
  by (cases rest; auto simp: number_end_def)+

lemma json_magnitude_plain:
  assumes "list_all dig ds" "ds \<noteq> []" "hd ds \<noteq> CHR ''0'' \<or> length ds = 1" "number_end rest"
  shows "json_magnitude (ds @ rest) = Some (of_nat (digits_value 0 (lit ds)), rest)"
  using assms takeWhile_dig [OF assms(1) stop_dig [OF assms(4)]]
  by (auto simp: json_magnitude_def Let_def stop_tail power10_def)

lemma json_magnitude_point:
  assumes "list_all dig ds" "ds \<noteq> []" "hd ds \<noteq> CHR ''0'' \<or> length ds = 1"
    and "list_all dig fs" "fs \<noteq> []" "number_end rest"
  shows "json_magnitude (ds @ CHR ''.'' # fs @ rest) =
           Some (of_nat (digits_value 0 (lit (ds @ fs))) * power10 (- int (length fs)), rest)"
proof -
  have "\<not> dig CHR ''.''" by (simp add: dig_def is_digit_def)
  with takeWhile_dig [OF assms(1), of "CHR ''.'' # fs @ rest"]
    takeWhile_dig [OF assms(4) stop_dig [OF assms(6)]] assms
  show ?thesis by (auto simp: json_magnitude_def Let_def stop_tail)
qed

lemma show_nat_dig [simp]: "list_all dig (show_nat n)"
  by (simp add: list_all_dig show_nat_digits)

lemma show_nat_lead: "hd (show_nat n) \<noteq> CHR ''0'' \<or> length (show_nat n) = 1"
  using show_nat_hd [of n] by (cases "n = 0") auto

lemma json_number_pos: "bs \<noteq> [] \<Longrightarrow> dig (hd bs) \<Longrightarrow> json_number bs = json_magnitude bs"
  by (cases bs) (auto simp: json_number_def dig_def is_digit_def)

lemma json_number_show_int [dec_simps]:
  assumes "number_end rest"
  shows "json_number (show_int i @ rest) = Some (of_int i, rest)"
proof (cases "i < 0")
  case True
  then show ?thesis
    using json_magnitude_plain [OF show_nat_dig show_nat_nonempty show_nat_lead assms, of "nat (- i)"]
    by (simp add: show_int_def json_number_def show_nat_value)
next
  case False
  have "dig (hd (show_nat (nat i)))"
    using show_nat_dig [of "nat i"] show_nat_nonempty [of "nat i"] by (cases "show_nat (nat i)") auto
  with False show ?thesis
    using json_magnitude_plain [OF show_nat_dig show_nat_nonempty show_nat_lead assms, of "nat i"]
    by (simp add: show_int_def json_number_pos show_nat_value)
qed

section \<open>Floating-point numbers\<close>

lemma power10_powi: "power10 k = 10 powi k"
  by (simp add: power10_def power_int_def inverse_eq_divide power_one_over)

lemma shortest_pos: "wf_decoded d \<Longrightarrow> - 324 \<le> k \<Longrightarrow> 0 < fst (shortest d k)"
  using shortest_inside [of d k "fst (shortest d k)" "snd (shortest d k)"]
    inside_pos [of d "snd (shortest d k)" "fst (shortest d k)"] by simp

lemma lit_zeros: "lit (replicate n CHR ''0'') = replicate n 48"
  by (simp add: lit_def)

lemma digits_value_zeros: "digits_value 0 (replicate n 48) = 0"
  by (induction n) auto

lemma digits_value_trailing: "digits_value a (replicate n 48) = a * 10 ^ n"
  by (induction n arbitrary: a) (auto simp: algebra_simps)

lemma json_magnitude_dec_str:
  assumes "0 < n" "number_end rest"
  shows "json_magnitude (dec_str (show_nat n) e @ rest) =
           Some (of_nat n * power10 (e - int (length (show_nat n))), rest)"
proof -
  let ?b = "show_nat n"
  have ds: "list_all dig ?b" "?b \<noteq> []" "hd ?b \<noteq> CHR ''0''" "digits_value 0 (lit ?b) = n"
    using assms show_nat_hd by (auto simp: show_nat_value)
  have z: "dig CHR ''0''" "list_all dig (replicate k CHR ''0'')" for k
    by (simp_all add: dig_def is_digit_def list_all_iff)
  consider "e \<le> 0" | "0 < e" "nat e < length ?b" | "0 < e" "length ?b \<le> nat e" by linarith
  then show ?thesis
  proof cases
    case 1
    then have "digits_value 0 (lit (''0'' @ replicate (nat (- e)) CHR ''0'' @ ?b)) = n"
      using ds(4) by (simp add: lit_zeros digits_value_zeros)
    with json_magnitude_point [of "''0''" "replicate (nat (- e)) CHR ''0'' @ ?b" rest] 1 ds z assms
    show ?thesis by (simp add: dec_str_def)
  next
    case 2
    have "list_all dig (take (nat e) ?b)" "list_all dig (drop (nat e) ?b)"
      using ds(1) by (auto simp: list_all_iff dest: in_set_takeD in_set_dropD)
    moreover have "hd (take (nat e) ?b) = hd ?b" "take (nat e) ?b \<noteq> []" "drop (nat e) ?b \<noteq> []"
      using 2 ds(2) by (auto simp: hd_conv_nth)
    ultimately show ?thesis
      using json_magnitude_point [of "take (nat e) ?b" "drop (nat e) ?b" rest] 2 ds assms
      by (simp add: dec_str_def of_nat_diff)
  next
    case 3
    then have "of_nat (digits_value 0 (lit (?b @ replicate (nat e - length ?b) CHR ''0'')))
                 = of_nat n * power10 (e - int (length ?b))"
      using ds(4) by (simp add: lit_zeros digits_value_trailing power10_def nat_diff_distrib)
    with json_magnitude_plain [of "?b @ replicate (nat e - length ?b) CHR ''0''" rest] 3 ds z assms
    show ?thesis by (simp add: dec_str_def)
  qed
qed

lemma json_number_f64 [dec_simps]:
  assumes "f64_is_finite b" "number_end rest"
  shows "json_number (f64_to_string b @ rest) = Some (f64_decimal b, rest)"
proof -
  define sign where "sign = (if f64_negative b then ''-'' else [])"
  have "\<exists>m t. f64_to_string b = sign @ t \<and> t \<noteq> [] \<and> dig (hd t) \<and>
          json_magnitude (t @ rest) = Some (m, rest) \<and> f64_decimal b = (if f64_negative b then - m else m)"
  proof (cases "f64_is_zero b")
    case True
    have "json_magnitude (''0'' @ rest) = Some (0, rest)"
      using json_magnitude_plain [of "''0''" rest] assms by (simp add: dig_def is_digit_def)
    with True assms show ?thesis
      by (intro exI [of _ 0] exI [of _ "''0''"])
        (simp add: f64_to_string_def f64_decimal_def f64_is_finite_def sign_def dig_def is_digit_def)
  next
    case False
    let ?d = "f64_decode b"
    obtain n k where nk: "shortest ?d (top_power ?d) = (n, k)" by (cases "shortest ?d (top_power ?d)")
    have "0 < n"
      using shortest_pos [OF f64_decode_wf [OF assms(1) False], of "top_power ?d"] nk
      by (simp add: top_power_def)
    let ?t = "dec_str (show_nat n) (int (length (show_nat n)) + k)"
    have m: "json_magnitude (?t @ rest) = Some (of_nat n * power10 k, rest)"
      using json_magnitude_dec_str [OF \<open>0 < n\<close> assms(2), of "int (length (show_nat n)) + k"] by simp
    then have "takeWhile dig (?t @ rest) \<noteq> []"
      by (auto simp: json_magnitude_def Let_def split: if_splits)
    moreover have "?t \<noteq> []" by (simp add: dec_str_def)
    ultimately have "dig (hd ?t)" by (cases ?t) (auto split: if_splits)
    with m \<open>?t \<noteq> []\<close> nk False assms show ?thesis
      by (intro exI [of _ "of_nat n * power10 k"] exI [of _ ?t])
        (simp add: f64_to_string_def f64_decimal_def f64_is_finite_def sign_def Let_def power10_powi)
  qed
  then show ?thesis
    by (auto simp: sign_def json_number_pos) (auto simp: json_number_def)
qed

section \<open>Values\<close>

fun key_text :: "pyobj \<Rightarrow> rstr" where
  "key_text (PyStr s) = s"
| "key_text _ = []"

text \<open>The JSON value that is written for a Python value.\<close>

fun json_of :: "pyobj \<Rightarrow> json" where
  "json_of PyNone = JNull"
| "json_of (PyBool b) = JBool b"
| "json_of (PyInt i) = JNum (of_int i)"
| "json_of (PyFloat x) = JNum (f64_decimal x)"
| "json_of (PyStr s) = JStr s"
| "json_of (PyDict es) = JObj (map (\<lambda>(k, v). (key_text k, json_of v)) es)"
| "json_of (PyList xs) = JArr (map json_of xs)"
| "json_of (PyTuple xs) = JArr (map json_of xs)"
| "json_of (PyExc c a) = JNull"
| "json_of (PyRef i n) = JNull"

lemma or_else_None [simp]: "or_else a b = None \<longleftrightarrow> a = None \<and> b = None"
  by (simp add: or_else_def split: option.split)

lemma first_some_None [simp]: "first_some xs = None \<longleftrightarrow> (\<forall>x \<in> set xs. x = None)"
  by (induction xs) auto

text \<open>
  \<open>reads v n\<close>: with \<open>n\<close> or more units of fuel the reader takes the text of \<open>v\<close> off the front of
  the input and stands before whatever may follow a value.
\<close>

definition reads :: "pyobj \<Rightarrow> bool" where
  "reads v \<longleftrightarrow>
     (\<forall>n rest. length (json_text v) \<le> n \<longrightarrow> number_end rest \<longrightarrow>
        json_value n (json_text v @ rest) = Some (json_of v, rest))"

definition value_start :: "bytes \<Rightarrow> bool" where
  "value_start t \<longleftrightarrow> t \<noteq> [] \<and> \<not> is_ws (hd t) \<and> hd t \<noteq> CHR '']'' \<and> hd t \<noteq> CHR ''}''"

lemma skip_ws_start [simp]: "value_start t \<Longrightarrow> skip_ws (t @ r) = t @ r"
  by (cases t) (auto simp: value_start_def skip_ws_def)

lemma skip_ws_sep [simp]:
  "skip_ws [] = []"
  "skip_ws (CHR '','' # r) = CHR '','' # r" "skip_ws (CHR '']'' # r) = CHR '']'' # r"
  "skip_ws (CHR ''}'' # r) = CHR ''}'' # r" "skip_ws (CHR '':'' # r) = CHR '':'' # r"
  "skip_ws (CHR 0x22 # r) = CHR 0x22 # r" "skip_ws (CHR ''['' # r) = CHR ''['' # r"
  "skip_ws (CHR ''{'' # r) = CHR ''{'' # r"
  by (simp_all add: skip_ws_def is_ws_def)

lemma number_start:
  assumes "json_number t = Some (x, r)"
  shows "t \<noteq> [] \<and> (dig (hd t) \<or> hd t = CHR ''-'')"
proof -
  have mag: "u \<noteq> [] \<and> dig (hd u)" if "json_magnitude u = Some y" for u y
    using that by (cases u) (auto simp: json_magnitude_def Let_def split: if_splits)
  show ?thesis
    using assms mag [of t "(x, r)"] by (cases t) (auto simp: json_number_def split: if_splits)
qed

lemma json_value_number:
  assumes "json_number (t @ rest) = Some (x, rest)" "json_number t = Some (x, [])" "length t \<le> n"
  shows "value_start t \<and> json_value n (t @ rest) = Some (JNum x, rest)"
proof -
  have t: "t \<noteq> []" "dig (hd t) \<or> hd t = CHR ''-''" using number_start [OF assms(2)] by auto
  obtain c cs where tc: "t = c # cs" using t(1) by (cases t) auto
  obtain m where n: "n = Suc m" using assms(3) tc by (cases n) auto
  have c: "c \<noteq> CHR ''[''" "c \<noteq> CHR ''{''" "c \<noteq> CHR 0x22" "c \<noteq> CHR ''n''" "c \<noteq> CHR ''t''" "c \<noteq> CHR ''f''"
    "c \<noteq> CHR '']''" "c \<noteq> CHR ''}''" "\<not> is_ws c"
    using t(2) tc by (auto simp: dig_def is_digit_def is_ws_def)
  have "value_start t" using c tc by (simp add: value_start_def)
  then have "skip_ws (t @ rest) = c # cs @ rest" using skip_ws_start [of t rest] tc by (metis append_Cons)
  with c n assms(1) tc \<open>value_start t\<close> show ?thesis by simp
qed

lemma reads_number:
  assumes "\<And>rest. number_end rest \<Longrightarrow> json_number (json_text v @ rest) = Some (x, rest)" "json_of v = JNum x"
  shows "reads v \<and> value_start (json_text v)"
proof -
  have "json_number (json_text v) = Some (x, [])" using assms(1) [of "[]"] by simp
  note num = json_value_number [OF assms(1) this]
  show ?thesis
    using num [of "[]" "length (json_text v)"] num assms(2) by (auto simp: reads_def)
qed

lemma items_read:
  "xs \<noteq> [] \<Longrightarrow> \<forall>x \<in> set xs. reads x \<and> value_start (json_text x) \<Longrightarrow>
   length (commas (map json_text xs)) < n \<Longrightarrow>
   json_items n (commas (map json_text xs) @ CHR '']'' # rest) = Some (map json_of xs, rest)"
proof (induction xs arbitrary: n)
  case Nil
  then show ?case by simp
next
  case (Cons x xs)
  obtain m where n: "n = Suc m" using Cons.prems(3) by (cases n) auto
  have x: "reads x" using Cons.prems by simp
  show ?case
  proof (cases "xs = []")
    case True
    have "json_value m (json_text x @ CHR '']'' # rest) = Some (json_of x, CHR '']'' # rest)"
      using x True Cons.prems n by (auto simp: reads_def)
    with True n show ?thesis by simp
  next
    case False
    let ?r = "commas (map json_text xs) @ CHR '']'' # rest"
    have len: "length (json_text x) + length (commas (map json_text xs)) < m"
      using Cons.prems(3) n False by (simp add: commas_Cons)
    have "json_value m (json_text x @ CHR '','' # ?r) = Some (json_of x, CHR '','' # ?r)"
      using x len by (auto simp: reads_def)
    moreover have "json_items m ?r = Some (map json_of xs, rest)"
      using Cons False len by simp
    ultimately show ?thesis using n False by (simp add: commas_Cons)
  qed
qed

lemma members_read:
  "es \<noteq> [] \<Longrightarrow>
   \<forall>p \<in> set es. reads (snd p) \<and> key_error (fst p) = None \<Longrightarrow>
   length (commas (map pair_text es)) < n \<Longrightarrow>
   json_members n (commas (map pair_text es) @ CHR ''}'' # rest) =
     Some (map (\<lambda>(k, v). (key_text k, json_of v)) es, rest)"
proof (induction es arbitrary: n)
  case Nil
  then show ?case by simp
next
  case (Cons p es)
  obtain m where n: "n = Suc m" using Cons.prems(3) by (cases n) auto
  obtain s v where p: "p = (PyStr s, v)" and s: "list_all is_scalar s"
    using Cons.prems(2)
    by (cases p; cases "fst p") (auto simp: key_error_def str_error_def to_str_def split: if_splits)
  have v: "reads v" using Cons.prems p by simp
  have key: "pair_text (PyStr s, v) @ r = CHR 0x22 # concat (map escape_char s) @ CHR 0x22 # CHR '':'' # json_text v @ r" for r
    by (simp add: pair_text_def)
  show ?case
  proof (cases "es = []")
    case True
    have "length (json_text v) \<le> m" using Cons.prems(3) n p True by (simp add: pair_text_def)
    then have "json_value m (json_text v @ CHR ''}'' # rest) = Some (json_of v, CHR ''}'' # rest)"
      using v by (simp add: reads_def)
    with True n p show ?thesis by (simp add: key json_chars_escaped [OF s])
  next
    case False
    let ?r = "commas (map pair_text es) @ CHR ''}'' # rest"
    have len: "length (json_text v) + length (commas (map pair_text es)) < m"
      using Cons.prems(3) n False p by (simp add: commas_Cons pair_text_def [of "(PyStr s, v)"])
    have "json_value m (json_text v @ CHR '','' # ?r) = Some (json_of v, CHR '','' # ?r)"
      using v len by (simp add: reads_def)
    moreover have "json_members m ?r = Some (map (\<lambda>(k, v). (key_text k, json_of v)) es, rest)"
      using Cons False len by simp
    ultimately show ?thesis using n False p by (simp add: commas_Cons key json_chars_escaped [OF s])
  qed
qed


lemma reads_list:
  assumes "\<And>x. x \<in> set xs \<Longrightarrow> reads x \<and> value_start (json_text x)"
    and "length (commas (map json_text xs)) + 2 \<le> n"
  shows "json_value n (''['' @ commas (map json_text xs) @ '']'' @ rest) = Some (JArr (map json_of xs), rest)"
proof -
  obtain m where n: "n = Suc m" using assms(2) by (cases n) auto
  show ?thesis
  proof (cases xs)
    case Nil
    with n show ?thesis by simp
  next
    case (Cons x ys)
    have "value_start (commas (map json_text xs))"
      using assms(1) [of x] Cons by (auto simp: commas_Cons value_start_def)
    then have ws: "skip_ws (commas (map json_text xs) @ CHR '']'' # rest) = commas (map json_text xs) @ CHR '']'' # rest"
      and hd: "commas (map json_text xs) \<noteq> []" "hd (commas (map json_text xs)) \<noteq> CHR '']''"
      by (simp, auto simp: value_start_def)
    have "json_items m (commas (map json_text xs) @ CHR '']'' # rest) = Some (map json_of xs, rest)"
      using items_read [of xs m rest] assms n Cons by simp
    with n ws hd show ?thesis by (cases "commas (map json_text xs)") auto
  qed
qed

lemma reads_dict:
  assumes "\<And>p. p \<in> set es \<Longrightarrow> reads (snd p) \<and> key_error (fst p) = None"
    and "length (commas (map pair_text es)) + 2 \<le> n"
  shows "json_value n (''{'' @ commas (map pair_text es) @ ''}'' @ rest) = Some (json_of (PyDict es), rest)"
proof -
  obtain m where n: "n = Suc m" using assms(2) by (cases n) auto
  show ?thesis
  proof (cases es)
    case Nil
    with n show ?thesis by simp
  next
    case (Cons p ys)
    obtain s v where "p = (PyStr s, v)"
      using assms(1) [of p] Cons by (cases p; cases "fst p") (auto simp: key_error_def)
    then obtain t where t: "commas (map pair_text es) @ r = CHR 0x22 # t @ r" for r
      using Cons by (auto simp: commas_Cons pair_text_def)
    have "json_members m (commas (map pair_text es) @ CHR ''}'' # rest)
            = Some (map (\<lambda>(k, v). (key_text k, json_of v)) es, rest)"
      using members_read [of es m rest] assms n Cons by simp
    with n t [of "CHR ''}'' # rest"] show ?thesis by simp
  qed
qed

lemma expect_word: "expect w x (w @ r) = Some (x, r)"
  by (simp add: expect_def)

lemma json_text_reads:
  "json_error v = None \<Longrightarrow> reads v \<and> value_start (json_text v)"
proof (induction v)
  case PyNone
  show ?case
    using expect_word [of "''null''" JNull]
    by (auto simp: reads_def value_start_def is_ws_def skip_ws_def dest!: Suc_le_D)
next
  case (PyBool b)
  show ?case
    using expect_word [of "''true''" "JBool True"] expect_word [of "''false''" "JBool False"]
    by (cases b) (auto simp: reads_def value_start_def is_ws_def skip_ws_def dest!: Suc_le_D)
next
  case (PyInt i)
  show ?case by (rule reads_number) (simp_all add: json_number_show_int)
next
  case (PyFloat x)
  then have "f64_is_finite x" by (auto split: if_splits)
  then show ?case by (intro reads_number) (simp_all add: json_number_f64)
next
  case (PyStr s)
  then have "list_all is_scalar s" by (auto simp: str_error_def to_str_def split: if_splits)
  then show ?case
    by (auto simp: reads_def value_start_def is_ws_def json_chars_escaped
        dest!: Suc_le_D)
next
  case (PyDict es)
  have "reads (snd p) \<and> key_error (fst p) = None" if "p \<in> set es" for p
  proof -
    have "pair_error p = None"
      using PyDict.prems that by (simp only: json_PyDict first_some_None set_map) blast
    then have e: "key_error (fst p) = None" "json_error (snd p) = None"
      by (simp_all add: pair_error_def)
    have "snd p \<in> Basic_BNFs.snds p" by (cases p) (simp add: snds.simps)
    from PyDict.IH(2) [OF that this e(2)] e(1) show ?thesis by simp
  qed
  from reads_dict [of es, OF this] show ?case
    by (simp add: reads_def json_PyDict value_start_def is_ws_def del: json_text.simps json_of.simps)
next
  case (PyList xs)
  then have "reads x \<and> value_start (json_text x)" if "x \<in> set xs" for x using that by auto
  from reads_list [of xs, OF this] show ?case by (simp add: reads_def value_start_def is_ws_def)
next
  case (PyTuple xs)
  then have "reads x \<and> value_start (json_text x)" if "x \<in> set xs" for x using that by auto
  from reads_list [of xs, OF this] show ?case by (simp add: reads_def value_start_def is_ws_def)
qed simp_all

lemma json_read_text: "json_error v = None \<Longrightarrow> json_read (json_text v) = Some (json_of v)"
proof -
  assume "json_error v = None"
  then have "json_value (length (json_text v)) (json_text v @ []) = Some (json_of v, [])"
    using json_text_reads [of v] number_end_simps(1) unfolding reads_def by blast
  then show ?thesis by (simp add: json_read_def)
qed

section \<open>Properties of the serializer\<close>

text \<open>
  What it means for a JSON value to stand for a Python value.  Nothing here looks at how the text is
  made: in particular a number stands for a float when a correctly rounding reader makes that float
  of it.
\<close>

inductive stands_for :: "json \<Rightarrow> pyobj \<Rightarrow> bool" where
  Null: "stands_for JNull PyNone"
| Bool: "stands_for (JBool b) (PyBool b)"
| Int: "stands_for (JNum (of_int i)) (PyInt i)"
| Float: "rounds_to q x \<Longrightarrow> stands_for (JNum q) (PyFloat x)"
| Str: "stands_for (JStr s) (PyStr s)"
| Obj: "map fst es = map (\<lambda>m. PyStr (fst m)) ms \<Longrightarrow> list_all2 stands_for (map snd ms) (map snd es) \<Longrightarrow>
    stands_for (JObj ms) (PyDict es)"
| List: "list_all2 stands_for js xs \<Longrightarrow> stands_for (JArr js) (PyList xs)"
| Tuple: "list_all2 stands_for js xs \<Longrightarrow> stands_for (JArr js) (PyTuple xs)"

lemma json_of_stands_for: "json_error v = None \<Longrightarrow> stands_for (json_of v) v"
proof (induction v)
  case (PyFloat x)
  then have "f64_is_finite x" by (auto split: if_splits)
  then show ?case by (auto intro: stands_for.Float decimal_rounds_to)
next
  case (PyDict es)
  have "fst p = PyStr (key_text (fst p)) \<and> stands_for (json_of (snd p)) (snd p)" if "p \<in> set es" for p
  proof -
    have "pair_error p = None"
      using PyDict.prems that by (simp only: json_PyDict first_some_None set_map) blast
    then have e: "key_error (fst p) = None" "json_error (snd p) = None"
      by (simp_all add: pair_error_def)
    have "snd p \<in> Basic_BNFs.snds p" by (cases p) (simp add: snds.simps)
    with PyDict.IH(2) [OF that _ e(2)] e(1) show ?thesis by (cases "fst p") (auto simp: key_error_def)
  qed
  then show ?case
    by (simp only: json_of.simps) (rule stands_for.Obj, auto simp: list_all2_conv_all_nth case_prod_beta)
next
  case (PyList xs)
  then have "list_all2 stands_for (map json_of xs) xs" by (auto simp: list_all2_conv_all_nth)
  then show ?case by (simp add: stands_for.List)
next
  case (PyTuple xs)
  then have "list_all2 stands_for (map json_of xs) xs" by (auto simp: list_all2_conv_all_nth)
  then show ?case by (simp add: stands_for.Tuple)
qed (auto intro: stands_for.intros)

text \<open>
  C11.  Round trip of the response serializer: whenever \<open>write_json\<close> succeeds on a value, the bytes
  it produced are a complete JSON text, and what a reader makes of that text stands for the value:
  integers exactly, strings code point by code point, dict entries in order, and every float as a
  number whose nearest binary64 number (ties to even) is that float.
\<close>

theorem write_json_round_trip:
  assumes "fst (write_json v []) = Inr ()"
  shows "\<exists>j. json_read (snd (write_json v [])) = Some j \<and> stands_for j v"
proof -
  have e: "json_error v = None"
    using assms write_json_writes [of v] writes_Err [of "write_json v" _ "json_text v" "[]"]
    by (cases "json_error v") fastforce+
  then show ?thesis
    using writes_OK [of "write_json v" "json_text v" "[]"] write_json_writes [of v] json_read_text
      json_of_stands_for by simp
qed

text \<open>0.1, whose bits are \<open>0x3FB999999999999A\<close>, inside a dict.\<close>

theorem write_json_round_trip_witness:
  "fst (write_json (PyDict [(PyStr [97, 0x26A1], PyList [PyInt (- 42), PyFloat 0x3FB999999999999A])]) []) = Inr ()
   \<and> (\<exists>j. json_read (snd (write_json (PyDict [(PyStr [97, 0x26A1], PyList [PyInt (- 42), PyFloat 0x3FB999999999999A])]) []))
       = Some j \<and> stands_for j (PyDict [(PyStr [97, 0x26A1], PyList [PyInt (- 42), PyFloat 0x3FB999999999999A])]))"
proof -
  let ?v = "PyDict [(PyStr [97, 0x26A1], PyList [PyInt (- 42), PyFloat 0x3FB999999999999A])]"
  have "json_error ?v = None"
    by (simp add: key_error_def str_error_def to_str_def is_scalar_def f64_is_finite_def f64_exponent_def)
  then have ok: "fst (write_json ?v []) = Inr ()"
    using writes_OK [of "write_json ?v" "json_text ?v" "[]"] write_json_writes [of ?v] by simp
  then show ?thesis using write_json_round_trip [OF ok] by blast
qed

text \<open>
  C12.  The serializer is exactly the reference: on a serializable value it appends the reference
  text to whatever was in the output, and otherwise it reports the first error in document order
  (an integer outside 64 bits, a NaN or infinity, a lone surrogate, a key that is not a string, an
  unsupported type).
\<close>

theorem write_json_spec:
  "case json_error v of
     None \<Rightarrow> write_json v out = (Inr (), out @ json_text v)
   | Some e \<Rightarrow> fst (write_json v out) = Inl e"
  using write_json_writes [of v] by (auto dest: writes_OK writes_Err split: option.split)

text \<open>
  C13.  Whatever the outcome, the serializer only appends: the bytes that were in the output vector
  stay as they were, and what is appended does not depend on them.
\<close>

theorem write_json_only_appends:
  "\<exists>bs r. \<forall>out. write_json v out = (r, out @ bs)"
proof -
  obtain r bs where nil: "write_json v [] = (r, bs)" by (cases "write_json v []")
  have "write_json v (out @ []) = apsnd ((@) out) (r, bs)" for out
    unfolding nil [symmetric] by (rule write_json_append)
  then show ?thesis by (simp only: append_Nil2 apsnd_conv) blast
qed

end
