(* ===== verification/Response.thy ===== *)
theory Response
  imports Schema
begin

text \<open>
  \<open>HandlerResponse\<close> of \<open>crates/dispatch/src/lib.rs\<close> and the conversion of a handler's return
  value into wire data.  Logging a Python error (\<open>PyErr::print\<close>) is the first component of the
  result: \<open>Some e\<close> when \<open>e\<close> was printed.
\<close>

record handler_response =
  status :: u16
  content_type :: string
  body :: bytes

definition internal_error :: handler_response where
  "internal_error =
     \<lparr>status = 500, content_type = ''text/plain; charset=utf-8'', body = ''Internal Server Error''\<rparr>"

definition no_content :: handler_response where
  "no_content = \<lparr>status = 204, content_type = ''text/plain; charset=utf-8'', body = []\<rparr>"

definition report_handler_error :: "pyobj \<Rightarrow> pyobj option \<times> handler_response" where
  "report_handler_error error = (Some error, internal_error)"

definition response_from_return_value :: "pyobj \<Rightarrow> pyobj option \<times> handler_response" where
  "response_from_return_value v =
     (case v of
        PyNone \<Rightarrow> (None, no_content)
      | PyStr text \<Rightarrow>
          (case to_str text of
             Inr body_text \<Rightarrow>
               (None, \<lparr>status = 200, content_type = ''text/plain; charset=utf-8'', body = utf8 body_text\<rparr>)
           | Inl encoding_error \<Rightarrow> report_handler_error encoding_error)
      | _ \<Rightarrow>
          (case write_json v [] of
             (Inr _, out) \<Rightarrow> (None, \<lparr>status = 200, content_type = ''application/json'', body = out\<rparr>)
           | (Inl serialization_error, out) \<Rightarrow> report_handler_error serialization_error))"

section \<open>Which response a value gets\<close>

definition ok_body :: "pyobj \<Rightarrow> bytes" where
  "ok_body v = (case v of PyStr s \<Rightarrow> utf8 s | _ \<Rightarrow> json_text v)"

lemma write_json_cases:
  "json_error v = None \<Longrightarrow> write_json v [] = (Inr (), json_text v)"
  "json_error v = Some e \<Longrightarrow> \<exists>out. write_json v [] = (Inl e, out)"
proof -
  assume "json_error v = None"
  then show "write_json v [] = (Inr (), json_text v)"
    using writes_OK [of "write_json v" "json_text v" "[]"] write_json_writes [of v] by simp
next
  assume "json_error v = Some e"
  then have "fst (write_json v []) = Inl e"
    using writes_Err [of "write_json v" e "json_text v" "[]"] write_json_writes [of v] by simp
  then show "\<exists>out. write_json v [] = (Inl e, out)" by (cases "write_json v []") auto
qed

lemma response_of_value:
  "response_from_return_value v =
     (case json_error v of
        Some e \<Rightarrow> (Some e, internal_error)
      | None \<Rightarrow>
          (None,
           if v = PyNone then no_content
           else \<lparr>status = 200,
                 content_type = (case v of PyStr _ \<Rightarrow> ''text/plain; charset=utf-8'' | _ \<Rightarrow> ''application/json''),
                 body = ok_body v\<rparr>))"
proof (cases v)
  case PyNone
  then show ?thesis by (simp add: response_from_return_value_def)
next
  case (PyStr s)
  then show ?thesis
    by (simp add: response_from_return_value_def str_error_def report_handler_error_def ok_body_def
        to_str_def split: sum.split)
qed (insert write_json_cases [of v],
    auto simp: response_from_return_value_def report_handler_error_def ok_body_def
      simp del: write_json.simps json_error.simps json_text.simps split: option.split)

end
