(* ===== verification/Task.thy ===== *)
theory Task
  imports Response
begin

text \<open>
  The state of \<open>crates/dispatch/src/lib.rs\<close>: \<open>TaskState\<close>, \<open>HandlerTask\<close> with its
  \<open>ResponseChannel\<close>, \<open>LoopHandles\<close> and \<open>EventLoop\<close>, and the operations of \<open>HandlerTask\<close>.

  Python, asyncio and the oneshot channel are outside the sources.  Everything the Rust code asks
  of them is a field of \<open>py_env\<close>, a function of the history of calls made so far, so that any
  behaviour of the other side, however it depends on the past, is some environment.  Python code
  that the calls run (the handler, its coroutine, its cleanup) may call back into the task methods:
  such a call answers with a \<open>script\<close>, a tree of method calls that continues with their results.
  The history itself is the \<open>log\<close> of the state, newest entry first.
\<close>

section \<open>State\<close>

record task_state =
  coroutine :: "pyobj option"
  task_context :: "pyobj option"
  waiting_on :: "pyobj option"
  deferred_throw :: "pyobj option"
  must_cancel :: bool
  cancel_message :: "pyobj option"
  cancel_requests :: u32
  registered_with_asyncio :: bool
  task_name :: "pyobj option"
  done_callbacks :: "(pyobj \<times> pyobj) list"
  finished :: bool
  finished_cancelled :: bool
  cancelled_message :: "pyobj option"
  stored_result :: "pyobj option"
  stored_exception :: "pyobj option"

definition default_task_state :: task_state where
  "default_task_state =
     \<lparr>coroutine = None, task_context = None, waiting_on = None, deferred_throw = None,
      must_cancel = False, cancel_message = None, cancel_requests = 0,
      registered_with_asyncio = False, task_name = None, done_callbacks = [], finished = False,
      finished_cancelled = False, cancelled_message = None, stored_result = None,
      stored_exception = None\<rparr>"

text \<open>
  The sender slot of the response channel holds the identity of its oneshot channel until it is
  taken; the gauge it shares with the loop is \<open>in_flight\<close> of the loop.
\<close>

record handler_task =
  handler :: pyobj
  handler_kwargs :: pyobj
  response_sender :: "nat option"
  tstate :: task_state

text \<open>What \<open>call_soon_threadsafe\<close> is asked to run on the loop thread.\<close>

datatype target = TStep addr | TCancel addr | TStop

text \<open>What one step of the coroutine came to.\<close>

datatype step_outcome = StepReturned pyobj | StepRaised pyobj | StepYielded pyobj

datatype event =
    TurnStarted addr
  | CalledHandler addr
  | CopiedContext
  | Registered addr bool
  | Unregistered addr bool
  | EnteredTask addr bool
  | LeftTask addr bool
  | EnteredContext addr bool
  | ExitedContext addr bool
  | Sent addr
  | Threw addr pyobj
  | Stepped addr step_outcome
  | Closed addr
  | ReadBlocking pyobj
  | AskedLoop pyobj
  | ClearedBlocking pyobj bool
  | AddedDoneCallback pyobj addr bool
  | AskedResult pyobj
  | CancelledFuture pyobj "pyobj option"
  | ScheduledSoon addr bool
  | ScheduledCallback pyobj pyobj addr bool
  | ScheduledThreadsafe target bool
  | Printed pyobj
  | Allocated bool
  | Responded nat handler_response
  | SenderDropped nat
  | Joined bool

text \<open>
  The handles that all tasks of a loop share, and the loop itself: the shared handles, the gauge and
  whether the thread still has to be joined, and, for the model, the task objects by address and the
  history.
\<close>

record loop_handles =
  loop_object :: pyobj
  live_tasks :: "addr list"

record event_loop = loop_handles +
  heap :: "addr \<Rightarrow> handler_task"
  allocated :: "addr set"
  in_flight :: usize
  next_channel :: nat
  thread_running :: bool
  log :: "event list"

section \<open>The Python side\<close>

datatype task_op =
    OpCancel addr "pyobj option"
  | OpUncancel addr
  | OpCancelling addr
  | OpDone addr
  | OpCancelled addr
  | OpGetLoop addr
  | OpGetCoro addr
  | OpGetContext addr
  | OpGetName addr
  | OpSetName addr pyobj
  | OpResult addr
  | OpException addr
  | OpAddDoneCallback addr pyobj "pyobj option"
  | OpRemoveDoneCallback addr pyobj

datatype op_result =
    RetBool bool
  | RetU32 u32
  | RetUsize nat
  | RetObj pyobj
  | RetOption "pyobj option"
  | RetRaise pyobj
  | RetUnit

datatype 'a script = Return 'a | Do task_op "op_result \<Rightarrow> 'a script"

datatype send_result = GenReturn pyobj | GenNext pyobj | GenError pyobj

record py_env =
  e_call_handler :: "event list \<Rightarrow> pyobj \<Rightarrow> pyobj \<Rightarrow> (pyobj + pyobj) script"
  e_copy_context :: "event list \<Rightarrow> pyobj + pyobj"
  e_register :: "event list \<Rightarrow> addr \<Rightarrow> pyobj option"
  e_unregister :: "event list \<Rightarrow> addr \<Rightarrow> pyobj option"
  e_enter_task :: "event list \<Rightarrow> addr \<Rightarrow> pyobj option"
  e_leave_task :: "event list \<Rightarrow> addr \<Rightarrow> pyobj option"
  e_context_enter :: "event list \<Rightarrow> pyobj \<Rightarrow> pyobj option"
  e_context_exit :: "event list \<Rightarrow> pyobj \<Rightarrow> pyobj option"
  e_send :: "event list \<Rightarrow> pyobj \<Rightarrow> send_result script"
  e_throw :: "event list \<Rightarrow> pyobj \<Rightarrow> pyobj \<Rightarrow> (pyobj + pyobj) script"
  e_stop_value :: "event list \<Rightarrow> pyobj \<Rightarrow> pyobj + pyobj"
  e_close :: "event list \<Rightarrow> pyobj \<Rightarrow> pyobj option script"
  e_blocking :: "event list \<Rightarrow> pyobj \<Rightarrow> pyobj + (pyobj + bool)"
  e_get_loop :: "event list \<Rightarrow> pyobj \<Rightarrow> pyobj + pyobj"
  e_clear_blocking :: "event list \<Rightarrow> pyobj \<Rightarrow> pyobj option"
  e_add_done_callback :: "event list \<Rightarrow> pyobj \<Rightarrow> addr \<Rightarrow> pyobj option"
  e_future_result :: "event list \<Rightarrow> pyobj \<Rightarrow> pyobj + pyobj"
  e_future_cancel :: "event list \<Rightarrow> pyobj \<Rightarrow> pyobj option \<Rightarrow> pyobj + (pyobj + bool)"
  e_call_soon :: "event list \<Rightarrow> addr \<Rightarrow> pyobj option"
  e_set_context :: "event list \<Rightarrow> pyobj \<Rightarrow> pyobj option"
  e_call_soon_callback :: "event list \<Rightarrow> pyobj \<Rightarrow> pyobj \<Rightarrow> addr \<Rightarrow> pyobj option"
  e_call_soon_threadsafe :: "event list \<Rightarrow> target \<Rightarrow> pyobj option"
  e_has_stop :: "event list \<Rightarrow> bool"
  e_allocate :: "event list \<Rightarrow> pyobj + addr"
  e_eq :: "pyobj \<Rightarrow> pyobj \<Rightarrow> pyobj + bool"
  e_str :: "pyobj \<Rightarrow> pyobj + pyobj"
  e_join_panicked :: "event list \<Rightarrow> bool"

section \<open>Access to the state\<close>

definition emit :: "event \<Rightarrow> event_loop \<Rightarrow> event_loop" where
  "emit e s = s\<lparr>log := e # log s\<rparr>"

definition print_error :: "pyobj option \<Rightarrow> event_loop \<Rightarrow> event_loop" where
  "print_error e s = (case e of None \<Rightarrow> s | Some x \<Rightarrow> emit (Printed x) s)"

definition lock_state :: "event_loop \<Rightarrow> addr \<Rightarrow> task_state" where
  "lock_state s a = tstate (heap s a)"

definition set_state :: "addr \<Rightarrow> task_state \<Rightarrow> event_loop \<Rightarrow> event_loop" where
  "set_state a st s = s\<lparr>heap := (heap s)(a := (heap s a)\<lparr>tstate := st\<rparr>)\<rparr>"

definition modify :: "addr \<Rightarrow> (task_state \<Rightarrow> task_state) \<Rightarrow> event_loop \<Rightarrow> event_loop" where
  "modify a f s = set_state a (f (lock_state s a)) s"

text \<open>\<open>Result\<close>-valued calls whose error is printed and otherwise ignored.\<close>

definition is_ok :: "pyobj option \<Rightarrow> bool" where
  "is_ok r \<longleftrightarrow> r = None"

end
