(* ===== verification/HandlerTask.thy ===== *)
theory HandlerTask
  imports Task
begin

text \<open>
  The operations of \<open>HandlerTask\<close> (\<open>crates/dispatch/src/lib.rs\<close>), one definition per method, in
  the order of the source: the terminal bookkeeping, the coroutine steps, parking, one scheduler
  turn (\<open>__call__\<close>), and the Task and Future protocol methods that Python code may call.
\<close>

section \<open>The response channel\<close>

text \<open>\<open>ResponseChannel::send\<close>: the sender is taken at most once, and the gauge goes down with it.\<close>

definition channel_send :: "addr \<Rightarrow> handler_response \<Rightarrow> event_loop \<Rightarrow> event_loop" where
  "channel_send a response s =
     (case response_sender (heap s a) of
        None \<Rightarrow> s
      | Some ch \<Rightarrow>
          emit (Responded ch response)
            (s\<lparr>heap := (heap s)(a := (heap s a)\<lparr>response_sender := None\<rparr>),
               in_flight := in_flight s - 1\<rparr>))"

text \<open>\<open>Drop for ResponseChannel\<close>, run when the task object is deallocated.\<close>

definition channel_drop :: "addr \<Rightarrow> event_loop \<Rightarrow> event_loop" where
  "channel_drop a s =
     (case response_sender (heap s a) of
        None \<Rightarrow> s
      | Some ch \<Rightarrow>
          emit (SenderDropped ch)
            (s\<lparr>heap := (heap s)(a := (heap s a)\<lparr>response_sender := None\<rparr>),
               in_flight := in_flight s - 1\<rparr>))"

section \<open>Task and Future protocol methods\<close>

text \<open>
  \<open>future.cancel(msg)\<close> with its result read by \<open>is_truthy().unwrap_or(false)\<close>: whether the
  awaited future takes the cancellation over.  The answer is a single one, not a script: a future
  whose \<open>cancel\<close> itself runs task methods is not modelled.  As none of the methods a script may
  call finishes a task, the second look of \<open>cancel\<close> at \<open>finished\<close>, kept from the source, never
  finds anything new here.
\<close>

definition future_cancel :: "py_env \<Rightarrow> pyobj \<Rightarrow> pyobj option \<Rightarrow> event_loop \<Rightarrow> bool \<times> event_loop" where
  "future_cancel env future msg s =
     (case e_future_cancel env (log s) future msg of
        Inl cancel_error \<Rightarrow> (False, emit (Printed cancel_error) (emit (CancelledFuture future msg) s))
      | Inr (Inl _) \<Rightarrow> (False, emit (CancelledFuture future msg) s)
      | Inr (Inr absorbed) \<Rightarrow> (absorbed, emit (CancelledFuture future msg) s))"

definition cancel :: "py_env \<Rightarrow> addr \<Rightarrow> pyobj option \<Rightarrow> event_loop \<Rightarrow> bool \<times> event_loop" where
  "cancel env a msg s =
     (let st = lock_state s a in
      if finished st then (False, s)
      else
        let s1 = set_state a (st\<lparr>cancel_requests := cancel_requests st + 1, cancel_message := msg\<rparr>) s;
            (absorbed, s2) = (case waiting_on st of
                                Some future \<Rightarrow> future_cancel env future msg s1
                              | None \<Rightarrow> (False, s1))
        in if absorbed then (True, s2)
           else if finished (lock_state s2 a) then (False, s2)
           else (True, modify a (\<lambda>st. st\<lparr>must_cancel := True\<rparr>) s2))"

definition saturating_sub :: "u32 \<Rightarrow> u32 \<Rightarrow> u32" where
  "saturating_sub x y = (if x < y then 0 else x - y)"

definition uncancel :: "addr \<Rightarrow> event_loop \<Rightarrow> u32 \<times> event_loop" where
  "uncancel a s =
     (let st = lock_state s a;
          n = saturating_sub (cancel_requests st) 1;
          st1 = st\<lparr>cancel_requests := n\<rparr>;
          st2 = (if n = 0 then st1\<lparr>must_cancel := False\<rparr> else st1)
      in (n, set_state a st2 s))"

definition cancelling :: "addr \<Rightarrow> event_loop \<Rightarrow> u32" where
  "cancelling a s = cancel_requests (lock_state s a)"

definition task_done :: "addr \<Rightarrow> event_loop \<Rightarrow> bool" where
  "task_done a s = finished (lock_state s a)"

definition cancelled :: "addr \<Rightarrow> event_loop \<Rightarrow> bool" where
  "cancelled a s = (finished (lock_state s a) \<and> finished_cancelled (lock_state s a))"

definition get_loop :: "event_loop \<Rightarrow> pyobj" where
  "get_loop s = loop_object s"

definition get_coro :: "addr \<Rightarrow> event_loop \<Rightarrow> pyobj option" where
  "get_coro a s = coroutine (lock_state s a)"

definition get_context :: "addr \<Rightarrow> event_loop \<Rightarrow> pyobj option" where
  "get_context a s = task_context (lock_state s a)"

definition get_name :: "addr \<Rightarrow> event_loop \<Rightarrow> pyobj" where
  "get_name a s =
     (case task_name (lock_state s a) of
        Some name \<Rightarrow> name
      | None \<Rightarrow> PyStr (lit ''rayo-handler''))"

definition set_name :: "py_env \<Rightarrow> addr \<Rightarrow> pyobj \<Rightarrow> event_loop \<Rightarrow> (pyobj + unit) \<times> event_loop" where
  "set_name env a v s =
     (case e_str env v of
        Inl e \<Rightarrow> (Inl e, s)
      | Inr name \<Rightarrow> (Inr (), modify a (\<lambda>st. st\<lparr>task_name := Some name\<rparr>) s))"

definition still_running_error :: pyobj where
  "still_running_error = new_err InvalidStateError (lit ''this request's handler is still running'')"

text \<open>\<open>cancelled_error_instance\<close>: \<open>CancelledError(message)\<close> or \<open>CancelledError()\<close>.\<close>

definition cancelled_error_instance :: "pyobj option \<Rightarrow> pyobj" where
  "cancelled_error_instance message =
     (case message of Some m \<Rightarrow> PyExc CancelledError [m] | None \<Rightarrow> PyExc CancelledError [])"

definition result :: "addr \<Rightarrow> event_loop \<Rightarrow> pyobj + pyobj" where
  "result a s =
     (let st = lock_state s a in
      if \<not> finished st then Inl still_running_error
      else if finished_cancelled st then Inl (cancelled_error_instance (cancelled_message st))
      else case stored_exception st of
        Some exception \<Rightarrow> Inl exception
      | None \<Rightarrow> Inr (case stored_result st of Some return_value \<Rightarrow> return_value | None \<Rightarrow> PyNone))"

definition exception :: "addr \<Rightarrow> event_loop \<Rightarrow> pyobj + pyobj option" where
  "exception a s =
     (let st = lock_state s a in
      if \<not> finished st then Inl still_running_error
      else if finished_cancelled st then Inl (cancelled_error_instance (cancelled_message st))
      else Inr (stored_exception st))"

text \<open>\<open>loop.call_soon(callback, task, context=ctx)\<close>, the keyword dict built first.\<close>

definition fire_callback ::
    "py_env \<Rightarrow> addr \<Rightarrow> pyobj \<Rightarrow> pyobj \<Rightarrow> event_loop \<Rightarrow> (pyobj + unit) \<times> event_loop" where
  "fire_callback env a callback callback_context s =
     (case e_set_context env (log s) callback_context of
        Some e \<Rightarrow> (Inl e, s)
      | None \<Rightarrow>
          (case e_call_soon_callback env (log s) callback callback_context a of
             Some e \<Rightarrow> (Inl e, emit (ScheduledCallback callback callback_context a False) s)
           | None \<Rightarrow> (Inr (), emit (ScheduledCallback callback callback_context a True) s)))"

definition add_done_callback ::
    "py_env \<Rightarrow> addr \<Rightarrow> pyobj \<Rightarrow> pyobj option \<Rightarrow> event_loop \<Rightarrow> (pyobj + unit) \<times> event_loop" where
  "add_done_callback env a callback ctx s =
     (let (context_result, s1) =
            (case ctx of
               Some explicit_context \<Rightarrow> (Inr explicit_context, s)
             | None \<Rightarrow> (e_copy_context env (log s), emit CopiedContext s))
      in case context_result of
           Inl e \<Rightarrow> (Inl e, s1)
         | Inr callback_context \<Rightarrow>
             if finished (lock_state s1 a) then fire_callback env a callback callback_context s1
             else (Inr (), modify a (\<lambda>st. st\<lparr>done_callbacks := done_callbacks st @ [(callback, callback_context)]\<rparr>) s1))"

definition remove_done_callback :: "py_env \<Rightarrow> addr \<Rightarrow> pyobj \<Rightarrow> event_loop \<Rightarrow> nat \<times> event_loop" where
  "remove_done_callback env a callback s =
     (let before = done_callbacks (lock_state s a);
          kept = filter (\<lambda>(existing, _). \<not> (case e_eq env existing callback of Inr b \<Rightarrow> b | Inl _ \<Rightarrow> False)) before
      in (length before - length kept, modify a (\<lambda>st. st\<lparr>done_callbacks := kept\<rparr>) s))"

section \<open>Python code calling back\<close>

text \<open>Every method of the task object except \<open>__call__\<close>, which only the event loop calls.\<close>

fun exec_op :: "py_env \<Rightarrow> task_op \<Rightarrow> event_loop \<Rightarrow> op_result \<times> event_loop" where
  "exec_op env (OpCancel a msg) s = (let (b, s') = cancel env a msg s in (RetBool b, s'))"
| "exec_op env (OpUncancel a) s = (let (n, s') = uncancel a s in (RetU32 n, s'))"
| "exec_op env (OpCancelling a) s = (RetU32 (cancelling a s), s)"
| "exec_op env (OpDone a) s = (RetBool (task_done a s), s)"
| "exec_op env (OpCancelled a) s = (RetBool (cancelled a s), s)"
| "exec_op env (OpGetLoop a) s = (RetObj (get_loop s), s)"
| "exec_op env (OpGetCoro a) s = (RetOption (get_coro a s), s)"
| "exec_op env (OpGetContext a) s = (RetOption (get_context a s), s)"
| "exec_op env (OpGetName a) s = (RetObj (get_name a s), s)"
| "exec_op env (OpSetName a v) s =
     (case set_name env a v s of (Inl e, s') \<Rightarrow> (RetRaise e, s') | (Inr _, s') \<Rightarrow> (RetUnit, s'))"
| "exec_op env (OpResult a) s =
     (case result a s of Inl e \<Rightarrow> (RetRaise e, s) | Inr v \<Rightarrow> (RetObj v, s))"
| "exec_op env (OpException a) s =
     (case exception a s of Inl e \<Rightarrow> (RetRaise e, s) | Inr v \<Rightarrow> (RetOption v, s))"
| "exec_op env (OpAddDoneCallback a callback ctx) s =
     (case add_done_callback env a callback ctx s of
        (Inl e, s') \<Rightarrow> (RetRaise e, s') | (Inr _, s') \<Rightarrow> (RetUnit, s'))"
| "exec_op env (OpRemoveDoneCallback a callback) s =
     (let (n, s') = remove_done_callback env a callback s in (RetUsize n, s'))"

primrec run_script :: "'a script \<Rightarrow> py_env \<Rightarrow> event_loop \<Rightarrow> 'a \<times> event_loop" where
  "run_script (Return x) env s = (x, s)"
| "run_script (Do op k) env s = (case exec_op env op s of (r, s') \<Rightarrow> run_script (k r) env s')"

section \<open>Finishing\<close>

datatype completion_kind = Returned pyobj | Raised pyobj | Cancelled "pyobj option" | Aborted

definition record_completion :: "completion_kind \<Rightarrow> task_state \<Rightarrow> task_state" where
  "record_completion completion st =
     (case completion of
        Returned return_value \<Rightarrow> st\<lparr>stored_result := Some return_value\<rparr>
      | Raised exc \<Rightarrow> st\<lparr>stored_exception := Some exc\<rparr>
      | Cancelled message \<Rightarrow> st\<lparr>finished_cancelled := True, cancelled_message := message\<rparr>
      | Aborted \<Rightarrow> st)"

fun fire_done_callbacks :: "py_env \<Rightarrow> addr \<Rightarrow> (pyobj \<times> pyobj) list \<Rightarrow> event_loop \<Rightarrow> event_loop" where
  "fire_done_callbacks env a [] s = s"
| "fire_done_callbacks env a ((callback, callback_context) # cbs) s =
     (case fire_callback env a callback callback_context s of
        (Inl callback_error, s') \<Rightarrow> fire_done_callbacks env a cbs (emit (Printed callback_error) s')
      | (Inr _, s') \<Rightarrow> fire_done_callbacks env a cbs s')"

definition unregister :: "py_env \<Rightarrow> addr \<Rightarrow> event_loop \<Rightarrow> event_loop" where
  "unregister env a s =
     (let r = e_unregister env (log s) a in print_error r (emit (Unregistered a (is_ok r)) s))"

definition finish ::
    "py_env \<Rightarrow> addr \<Rightarrow> handler_response \<Rightarrow> completion_kind \<Rightarrow> event_loop \<Rightarrow> event_loop" where
  "finish env a response completion s =
     (let st = lock_state s a in
      if finished st then channel_send a response s
      else
        let st1 = record_completion completion
                    (st\<lparr>finished := True, waiting_on := None, deferred_throw := None\<rparr>);
            was_registered = registered_with_asyncio st1;
            callbacks = done_callbacks st1;
            s1 = set_state a (st1\<lparr>registered_with_asyncio := False, done_callbacks := []\<rparr>) s;
            s2 = s1\<lparr>live_tasks := removeAll a (live_tasks s1)\<rparr>;
            s3 = (if was_registered then unregister env a s2 else s2);
            s4 = fire_done_callbacks env a callbacks s3
        in channel_send a response s4)"

definition close_coroutine_quietly :: "py_env \<Rightarrow> addr \<Rightarrow> event_loop \<Rightarrow> event_loop" where
  "close_coroutine_quietly env a s =
     (case coroutine (lock_state s a) of
        None \<Rightarrow> s
      | Some c \<Rightarrow>
          (case run_script (e_close env (log s) c) env (emit (Closed a) s) of
             (r, s') \<Rightarrow> print_error r s'))"

definition abort :: "py_env \<Rightarrow> addr \<Rightarrow> event_loop \<Rightarrow> event_loop" where
  "abort env a s = finish env a internal_error Aborted (close_coroutine_quietly env a s)"

definition dispose :: "py_env \<Rightarrow> addr \<Rightarrow> event_loop \<Rightarrow> event_loop" where
  "dispose env a s = abort env a s"

section \<open>Steps of the coroutine\<close>

definition start :: "py_env \<Rightarrow> addr \<Rightarrow> event_loop \<Rightarrow> bool \<times> event_loop" where
  "start env a s =
     (case run_script (e_call_handler env (log s) (handler (heap s a)) (handler_kwargs (heap s a))) env
             (emit (CalledHandler a) s) of
        (Inl factory_error, s1) \<Rightarrow>
          (let (printed, response) = report_handler_error factory_error
           in (False, finish env a response (Raised factory_error) (print_error printed s1)))
      | (Inr coro, s1) \<Rightarrow>
          (let r = e_copy_context env (log s1); s2 = emit CopiedContext s1 in
           case r of
             Inl context_error \<Rightarrow>
               (let s3 = emit (Printed context_error) s2 in
                case run_script (e_close env (log s3) coro) env (emit (Closed a) s3) of
                  (close_error, s4) \<Rightarrow>
                    (False, finish env a internal_error Aborted (print_error close_error s4)))
           | Inr ctx \<Rightarrow>
               (let s3 = modify a (\<lambda>st. st\<lparr>coroutine := Some coro, task_context := Some ctx\<rparr>) s2;
                    g = e_register env (log s3) a;
                    s4 = emit (Registered a (is_ok g)) s3
                in (True,
                    if is_ok g then modify a (\<lambda>st. st\<lparr>registered_with_asyncio := True\<rparr>) s4
                    else print_error g s4))))"

definition send_step :: "py_env \<Rightarrow> addr \<Rightarrow> pyobj \<Rightarrow> event_loop \<Rightarrow> step_outcome \<times> event_loop" where
  "send_step env a coro s =
     (case run_script (e_send env (log s) coro) env (emit (Sent a) s) of
        (r, s') \<Rightarrow>
          let outcome = (case r of
                           GenReturn v \<Rightarrow> StepReturned v
                         | GenNext v \<Rightarrow> StepYielded v
                         | GenError e \<Rightarrow> StepRaised e)
          in (outcome, emit (Stepped a outcome) s'))"

definition throw_step :: "py_env \<Rightarrow> addr \<Rightarrow> pyobj \<Rightarrow> pyobj \<Rightarrow> event_loop \<Rightarrow> step_outcome \<times> event_loop" where
  "throw_step env a coro exc s =
     (case run_script (e_throw env (log s) coro exc) env (emit (Threw a exc) s) of
        (r, s') \<Rightarrow>
          let outcome = (case r of
                           Inr yielded \<Rightarrow> StepYielded yielded
                         | Inl step_error \<Rightarrow>
                             if is_instance StopIteration step_error then
                               (case e_stop_value env (log s') step_error of
                                  Inr return_value \<Rightarrow> StepReturned return_value
                                | Inl extraction_error \<Rightarrow> StepRaised extraction_error)
                             else StepRaised step_error)
          in (outcome, emit (Stepped a outcome) s'))"

datatype park_outcome = Parked | BadYield pyobj | Failed

definition not_a_future_error :: "pyobj \<Rightarrow> pyobj" where
  "not_a_future_error yielded =
     new_err RuntimeError
       (lit ''handler awaited an object Rayo's scheduler does not understand (type ''
        @ (case type_name yielded of Inr n \<Rightarrow> n | Inl _ \<Rightarrow> lit ''<unknown>'')
        @ lit ''); only asyncio futures and things built on them can be awaited'')"

definition bare_yield_error :: pyobj where
  "bare_yield_error =
     new_err RuntimeError
       (lit ''handler coroutine used `yield` where `await` was expected (a future was passed through without its blocking flag set)'')"

definition cross_loop_error :: pyobj where
  "cross_loop_error =
     new_err RuntimeError
       (lit ''handler awaited a future attached to a different event loop; Rayo runs one event loop per core, so loop-bound objects (futures, locks, queues) created on one loop cannot be awaited from a request running on another '' @ [0x2014] @ lit '' create them inside the handler, or pin them to a single loop'')"

definition park_on_future ::
    "py_env \<Rightarrow> addr \<Rightarrow> pyobj \<Rightarrow> event_loop \<Rightarrow> park_outcome \<times> event_loop" where
  "park_on_future env a yielded s =
     (let s1 = emit (ReadBlocking yielded) s in
      case e_blocking env (log s) yielded of
        Inl _ \<Rightarrow> (BadYield (not_a_future_error yielded), s1)
      | Inr flag \<Rightarrow>
          if \<not> (case flag of Inr b \<Rightarrow> b | Inl _ \<Rightarrow> False) then (BadYield bare_yield_error, s1)
          else
            (let s2 = emit (AskedLoop yielded) s1;
                 foreign = (case e_get_loop env (log s1) yielded of
                              Inr future_loop \<Rightarrow> future_loop \<noteq> loop_object s
                            | Inl _ \<Rightarrow> False)
             in if foreign then (BadYield cross_loop_error, s2)
                else
                  (let f = e_clear_blocking env (log s2) yielded;
                       s3 = print_error f (emit (ClearedBlocking yielded (is_ok f)) s2)
                   in if \<not> is_ok f then (Failed, s3)
                      else
                        (let s4 = modify a (\<lambda>st. st\<lparr>waiting_on := Some yielded\<rparr>) s3;
                             c = e_add_done_callback env (log s4) yielded a;
                             s5 = print_error c (emit (AddedDoneCallback yielded a (is_ok c)) s4)
                         in if \<not> is_ok c
                            then (Failed, modify a (\<lambda>st. st\<lparr>waiting_on := None\<rparr>) s5)
                            else (Parked, s5)))))"

definition reschedule_or_abort :: "py_env \<Rightarrow> addr \<Rightarrow> event_loop \<Rightarrow> event_loop" where
  "reschedule_or_abort env a s =
     (let r = e_call_soon env (log s) a;
          s1 = print_error r (emit (ScheduledSoon a (is_ok r)) s)
      in if is_ok r then s1 else abort env a s1)"

definition apply_cancel_requested_mid_step :: "py_env \<Rightarrow> addr \<Rightarrow> event_loop \<Rightarrow> event_loop" where
  "apply_cancel_requested_mid_step env a s =
     (let st = lock_state s a in
      if \<not> must_cancel st then s
      else case waiting_on st of
        None \<Rightarrow> s
      | Some future \<Rightarrow>
          (case future_cancel env future (cancel_message st) s of
             (absorbed, s') \<Rightarrow>
               if absorbed then modify a (\<lambda>st. st\<lparr>must_cancel := False\<rparr>) s' else s'))"

definition first_arg :: "pyobj \<Rightarrow> pyobj option" where
  "first_arg e = (case e of PyExc _ (x # _) \<Rightarrow> Some x | _ \<Rightarrow> None)"

definition step_once :: "py_env \<Rightarrow> addr \<Rightarrow> pyobj \<Rightarrow> pyobj option \<Rightarrow> event_loop \<Rightarrow> event_loop" where
  "step_once env a coro pending_throw s =
     (case (case pending_throw of
              Some exc \<Rightarrow> throw_step env a coro exc s
            | None \<Rightarrow> send_step env a coro s) of
        (StepReturned return_value, s1) \<Rightarrow>
          (let (printed, response) = response_from_return_value return_value
           in finish env a response (Returned return_value) (print_error printed s1))
      | (StepRaised handler_error, s1) \<Rightarrow>
          if is_instance CancelledError handler_error then
            finish env a internal_error (Cancelled (first_arg handler_error)) s1
          else
            (let (printed, response) = report_handler_error handler_error
             in finish env a response (Raised handler_error) (print_error printed s1))
      | (StepYielded yielded, s1) \<Rightarrow>
          if yielded = PyNone then reschedule_or_abort env a s1
          else
            (case park_on_future env a yielded s1 of
               (Parked, s2) \<Rightarrow> apply_cancel_requested_mid_step env a s2
             | (BadYield protocol_error, s2) \<Rightarrow>
                 reschedule_or_abort env a
                   (modify a (\<lambda>st. st\<lparr>deferred_throw := Some protocol_error\<rparr>) s2)
             | (Failed, s2) \<Rightarrow> abort env a s2))"

section \<open>One scheduler turn\<close>

definition choose_throw ::
    "py_env \<Rightarrow> pyobj option \<Rightarrow> pyobj option \<Rightarrow> bool \<Rightarrow> pyobj option \<Rightarrow> event_loop
      \<Rightarrow> pyobj option \<times> event_loop" where
  "choose_throw env deferred finished_future must message s =
     (let (pending, s1) =
            (case finished_future of
               None \<Rightarrow> (deferred, s)
             | Some future \<Rightarrow>
                 (case e_future_result env (log s) future of
                    Inl wake_error \<Rightarrow> (Some wake_error, emit (AskedResult future) s)
                  | Inr _ \<Rightarrow> (deferred, emit (AskedResult future) s)));
          already_cancelled = (case pending of Some e \<Rightarrow> is_instance CancelledError e | None \<Rightarrow> False)
      in (if must \<and> \<not> already_cancelled then Some (cancelled_error_instance message) else pending, s1))"

definition leave_task :: "py_env \<Rightarrow> addr \<Rightarrow> event_loop \<Rightarrow> pyobj option \<times> event_loop" where
  "leave_task env a s =
     (let r = e_leave_task env (log s) a in (r, emit (LeftTask a (is_ok r)) s))"

definition run_in_context ::
    "py_env \<Rightarrow> addr \<Rightarrow> pyobj \<Rightarrow> pyobj \<Rightarrow> pyobj option \<Rightarrow> event_loop \<Rightarrow> event_loop" where
  "run_in_context env a coro ctx pending s =
     (let n = e_enter_task env (log s) a;
          s1 = print_error n (emit (EnteredTask a (is_ok n)) s)
      in if \<not> is_ok n then abort env a s1
         else
           (let c = e_context_enter env (log s1) ctx;
                s2 = print_error c (emit (EnteredContext a (is_ok c)) s1)
            in if \<not> is_ok c then abort env a (snd (leave_task env a s2))
               else
                 (let s3 = step_once env a coro pending s2;
                      x = e_context_exit env (log s3) ctx;
                      s4 = print_error x (emit (ExitedContext a (is_ok x)) s3);
                      (l, s5) = leave_task env a s4
                  in print_error l s5)))"

definition call_task :: "py_env \<Rightarrow> addr \<Rightarrow> pyobj option \<Rightarrow> event_loop \<Rightarrow> event_loop" where
  "call_task env a finished_future s0 =
     (let s = emit (TurnStarted a) s0; st = lock_state s a in
      if finished st then s
      else
        let must = must_cancel st; message = cancel_message st; deferred = deferred_throw st;
            s1 = set_state a (st\<lparr>waiting_on := None, must_cancel := False, cancel_message := None,
                                 deferred_throw := None\<rparr>) s
        in if coroutine st = None \<and> must then finish env a internal_error (Cancelled message) s1
           else
             let (running, s2) = (if coroutine st = None then start env a s1 else (True, s1))
             in if \<not> running then s2
                else
                  (let (pending, s3) = choose_throw env deferred finished_future must message s2
                   in case (coroutine (lock_state s3 a), task_context (lock_state s3 a)) of
                        (Some coro, Some ctx) \<Rightarrow> run_in_context env a coro ctx pending s3
                      | _ \<Rightarrow> s3))"

end
