(* ===== verification/TaskFrame.thy ===== *)
theory TaskFrame
  imports HandlerTask
begin

text \<open>
  What the operations of a task leave alone.  \<open>quiet\<close> is the effect of Python code that calls
  back into task methods: it may count cancellations, edit callback lists and names, and nothing
  else.  \<open>silent a\<close> is the effect of the parts of a turn that neither end the request of task \<open>a\<close>
  nor arrange for its next turn.  The wake-up ledger of a task is the number of turns asked for
  minus the number of turns taken.
\<close>

section \<open>The wake-up ledger\<close>

fun wake :: "addr \<Rightarrow> event \<Rightarrow> int" where
  "wake a (ScheduledSoon b ok) = (if ok \<and> b = a then 1 else 0)"
| "wake a (ScheduledThreadsafe (TStep b) ok) = (if ok \<and> b = a then 1 else 0)"
| "wake a (AddedDoneCallback f b ok) = (if ok \<and> b = a then 1 else 0)"
| "wake a (TurnStarted b) = (if b = a then - 1 else 0)"
| "wake a _ = 0"

definition pending :: "event_loop \<Rightarrow> addr \<Rightarrow> int" where
  "pending s a = sum_list (map (wake a) (log s))"

section \<open>Classes of events\<close>

text \<open>\<open>callback_event\<close>: what Python code calling back can cause.\<close>

fun callback_event :: "event \<Rightarrow> bool" where
  "callback_event CopiedContext = True"
| "callback_event (ScheduledCallback _ _ _ _) = True"
| "callback_event (CancelledFuture _ _) = True"
| "callback_event (Printed _) = True"
| "callback_event _ = False"

text \<open>\<open>channel_event\<close>: the events that resolve or abandon a response channel.\<close>

fun channel_event :: "event \<Rightarrow> bool" where
  "channel_event (Responded _ _) = True"
| "channel_event (SenderDropped _) = True"
| "channel_event _ = False"

lemma callback_event_wake [simp]: "callback_event e \<Longrightarrow> wake a e = 0"
  by (cases e) auto

lemma callback_event_channel [simp]: "callback_event e \<Longrightarrow> \<not> channel_event e"
  by (cases e) auto

section \<open>Frames\<close>

definition globals :: "event_loop \<Rightarrow> pyobj \<times> addr list \<times> addr set \<times> usize \<times> nat \<times> bool" where
  "globals s = (loop_object s, live_tasks s, allocated s, in_flight s, next_channel s, thread_running s)"

definition core_state :: "task_state \<Rightarrow> task_state" where
  "core_state st =
     st\<lparr>must_cancel := False, cancel_message := None, cancel_requests := 0, done_callbacks := [],
        task_name := None\<rparr>"

definition core_task :: "handler_task \<Rightarrow> handler_task" where
  "core_task t = t\<lparr>tstate := core_state (tstate t)\<rparr>"

definition extends_log :: "(event \<Rightarrow> bool) \<Rightarrow> event_loop \<Rightarrow> event_loop \<Rightarrow> bool" where
  "extends_log P s s' \<longleftrightarrow> (\<exists>es. log s' = es @ log s \<and> list_all P es)"

definition quiet :: "event_loop \<Rightarrow> event_loop \<Rightarrow> bool" where
  "quiet s s' \<longleftrightarrow>
     globals s' = globals s \<and>
     (\<forall>b. core_task (heap s' b) = core_task (heap s b) \<and>
          (finished (tstate (heap s b)) \<and> done_callbacks (tstate (heap s b)) = [] \<longrightarrow>
             done_callbacks (tstate (heap s' b)) = [])) \<and>
     extends_log callback_event s s'"

lemma extends_log_refl [simp]: "extends_log P s s"
  by (simp add: extends_log_def)

lemma extends_log_trans:
  "extends_log P s s' \<Longrightarrow> extends_log P s' s'' \<Longrightarrow> extends_log P s s''"
  unfolding extends_log_def by (metis append.assoc list_all_append)

lemma extends_log_mono: "extends_log P s s' \<Longrightarrow> (\<And>e. P e \<Longrightarrow> Q e) \<Longrightarrow> extends_log Q s s'"
  unfolding extends_log_def by (metis list.pred_mono_strong)

lemma quiet_refl [simp]: "quiet s s"
  by (simp add: quiet_def)

lemma core_task_fields [simp]:
  "handler (core_task t) = handler t" "handler_kwargs (core_task t) = handler_kwargs t"
  "response_sender (core_task t) = response_sender t"
  "tstate (core_task t) = core_state (tstate t)"
  by (simp_all add: core_task_def)

lemma core_state_fields [simp]:
  "coroutine (core_state st) = coroutine st" "task_context (core_state st) = task_context st"
  "waiting_on (core_state st) = waiting_on st" "deferred_throw (core_state st) = deferred_throw st"
  "registered_with_asyncio (core_state st) = registered_with_asyncio st"
  "finished (core_state st) = finished st" "finished_cancelled (core_state st) = finished_cancelled st"
  "cancelled_message (core_state st) = cancelled_message st"
  "stored_result (core_state st) = stored_result st"
  "stored_exception (core_state st) = stored_exception st"
  by (simp_all add: core_state_def)

lemma core_task_eqD:
  assumes "core_task t = core_task t'"
  shows "handler t = handler t'" "handler_kwargs t = handler_kwargs t'"
    "response_sender t = response_sender t'" "core_state (tstate t) = core_state (tstate t')"
  using arg_cong [OF assms, of handler] arg_cong [OF assms, of handler_kwargs]
    arg_cong [OF assms, of response_sender] arg_cong [OF assms, of tstate] by simp_all

lemma core_state_eqD:
  assumes "core_state t = core_state t'"
  shows "coroutine t = coroutine t'" "task_context t = task_context t'" "waiting_on t = waiting_on t'"
    "deferred_throw t = deferred_throw t'" "registered_with_asyncio t = registered_with_asyncio t'"
    "finished t = finished t'" "finished_cancelled t = finished_cancelled t'"
    "cancelled_message t = cancelled_message t'" "stored_result t = stored_result t'"
    "stored_exception t = stored_exception t'"
  using arg_cong [OF assms, of coroutine] arg_cong [OF assms, of task_context]
    arg_cong [OF assms, of waiting_on] arg_cong [OF assms, of deferred_throw]
    arg_cong [OF assms, of registered_with_asyncio] arg_cong [OF assms, of finished]
    arg_cong [OF assms, of finished_cancelled] arg_cong [OF assms, of cancelled_message]
    arg_cong [OF assms, of stored_result] arg_cong [OF assms, of stored_exception] by simp_all

lemma quiet_trans: "quiet s s' \<Longrightarrow> quiet s' s'' \<Longrightarrow> quiet s s''"
proof -
  assume q: "quiet s s'" "quiet s' s''"
  have "core_task (heap s'' b) = core_task (heap s b)" for b using q by (simp add: quiet_def)
  moreover have "finished (tstate (heap s' b)) = finished (tstate (heap s b))" for b
    using q(1) core_task_eqD(4) core_state_eqD(6) unfolding quiet_def by metis
  moreover have "extends_log callback_event s s''"
    using q extends_log_trans unfolding quiet_def by blast
  ultimately show ?thesis using q unfolding quiet_def by simp
qed

lemma emit_simps [simp]:
  "heap (emit e s) = heap s" "live_tasks (emit e s) = live_tasks s" "log (emit e s) = e # log s"
  "allocated (emit e s) = allocated s" "in_flight (emit e s) = in_flight s"
  "next_channel (emit e s) = next_channel s" "loop_object (emit e s) = loop_object s"
  "thread_running (emit e s) = thread_running s" "lock_state (emit e s) a = lock_state s a"
  "globals (emit e s) = globals s" "pending (emit e s) a = wake a e + pending s a"
  by (simp_all add: emit_def lock_state_def globals_def pending_def)

lemma set_state_simps [simp]:
  "live_tasks (set_state a st s) = live_tasks s" "log (set_state a st s) = log s"
  "allocated (set_state a st s) = allocated s" "in_flight (set_state a st s) = in_flight s"
  "next_channel (set_state a st s) = next_channel s" "loop_object (set_state a st s) = loop_object s"
  "thread_running (set_state a st s) = thread_running s"
  "globals (set_state a st s) = globals s" "pending (set_state a st s) b = pending s b"
  "lock_state (set_state a st s) b = (if b = a then st else lock_state s b)"
  "heap (set_state a st s) b = (if b = a then (heap s a)\<lparr>tstate := st\<rparr> else heap s b)"
  by (simp_all add: set_state_def lock_state_def globals_def pending_def)

lemma modify_simps [simp]:
  "live_tasks (modify a f s) = live_tasks s" "log (modify a f s) = log s"
  "allocated (modify a f s) = allocated s" "in_flight (modify a f s) = in_flight s"
  "next_channel (modify a f s) = next_channel s" "loop_object (modify a f s) = loop_object s"
  "thread_running (modify a f s) = thread_running s"
  "globals (modify a f s) = globals s" "pending (modify a f s) b = pending s b"
  "lock_state (modify a f s) b = (if b = a then f (lock_state s a) else lock_state s b)"
  "heap (modify a f s) b = (if b = a then (heap s a)\<lparr>tstate := f (lock_state s a)\<rparr> else heap s b)"
  by (simp_all add: modify_def)

lemma quiet_emit: "callback_event e \<Longrightarrow> quiet s (emit e s)"
  by (auto simp: quiet_def extends_log_def intro: exI [of _ "[e]"])

lemma quiet_print [simp]: "quiet s (print_error e s)"
  by (auto simp: print_error_def quiet_emit split: option.split)

lemma quiet_set_state:
  assumes "core_state st = core_state (lock_state s a)"
    and "finished (lock_state s a) \<Longrightarrow> done_callbacks (lock_state s a) = [] \<Longrightarrow> done_callbacks st = []"
  shows "quiet s (set_state a st s)"
  using assms by (simp add: quiet_def core_task_def lock_state_def extends_log_def)

lemma quiet_modify:
  assumes "core_state (f (lock_state s a)) = core_state (lock_state s a)"
    and "finished (lock_state s a) \<Longrightarrow> done_callbacks (lock_state s a) = [] \<Longrightarrow>
           done_callbacks (f (lock_state s a)) = []"
  shows "quiet s (modify a f s)"
  unfolding modify_def using assms by (rule quiet_set_state)

section \<open>The contract of the callable methods\<close>

locale quiet_operation =
  fixes op :: "event_loop \<Rightarrow> 'r \<times> event_loop"
  assumes op_quiet: "quiet s (snd (op s))"
begin

lemma op_globals: "globals (snd (op s)) = globals s"
  using op_quiet by (simp add: quiet_def)

lemma op_result: "op s = (r, s') \<Longrightarrow> quiet s s'"
  using op_quiet [of s] by simp

lemma op_then: "quiet s' s \<Longrightarrow> quiet s' (snd (op s))"
  using op_quiet quiet_trans by blast

end

lemma future_cancel_quiet: "quiet s (snd (future_cancel env f msg s))"
  by (auto simp: future_cancel_def intro!: quiet_emit quiet_trans [OF quiet_emit quiet_emit]
      split: sum.split)

interpretation fcancel: quiet_operation "future_cancel env f msg"
  by unfold_locales (rule future_cancel_quiet)

interpretation op_cancel: quiet_operation "cancel env a msg"
proof
  fix s
  let ?st = "lock_state s a"
  let ?s1 = "set_state a (?st\<lparr>cancel_requests := cancel_requests ?st + 1, cancel_message := msg\<rparr>) s"
  have 1: "quiet s ?s1" by (rule quiet_set_state) (simp_all add: core_state_def)
  have 2: "quiet s (snd (case waiting_on ?st of Some f \<Rightarrow> future_cancel env f msg ?s1 | None \<Rightarrow> (False, ?s1)))"
    using 1 by (auto intro: fcancel.op_then split: option.split)
  have 3: "quiet t (modify a (\<lambda>st. st\<lparr>must_cancel := True\<rparr>) t)" for t
    by (rule quiet_modify) (simp_all add: core_state_def)
  show "quiet s (snd (cancel env a msg s))"
    using 2 3 quiet_trans unfolding cancel_def Let_def
    by (auto split: prod.split)
qed

interpretation op_uncancel: quiet_operation "uncancel a"
  by unfold_locales (auto simp: uncancel_def Let_def core_state_def intro!: quiet_set_state)

interpretation op_set_name: quiet_operation "set_name env a v"
  by unfold_locales (auto simp: set_name_def core_state_def intro!: quiet_modify split: sum.split)

interpretation op_fire: quiet_operation "fire_callback env a cb ctx"
  by unfold_locales (auto simp: fire_callback_def intro!: quiet_emit split: option.split)

interpretation op_add_cb: quiet_operation "add_done_callback env a cb ctx"
proof
  fix s
  have q: "quiet t (modify a (\<lambda>st. st\<lparr>done_callbacks := done_callbacks st @ [(cb, c)]\<rparr>) t)"
    if "\<not> finished (lock_state t a)" for t c
    using that by (intro quiet_modify) (simp_all add: core_state_def)
  have e: "quiet s (emit CopiedContext s)" by (rule quiet_emit) simp
  show "quiet s (snd (add_done_callback env a cb ctx s))"
    using q [of s] q [of "emit CopiedContext s"] e op_fire.op_quiet op_fire.op_then [OF e]
    by (auto simp: add_done_callback_def intro: quiet_trans [OF e] split: option.split sum.split)
qed

interpretation op_remove_cb: quiet_operation "remove_done_callback env a cb"
  by unfold_locales
    (auto simp: remove_done_callback_def Let_def core_state_def intro!: quiet_modify)

interpretation op_exec: quiet_operation "exec_op env op"
  by unfold_locales
    (cases op; auto simp: Let_def split: prod.split sum.split
      dest: op_cancel.op_result op_uncancel.op_result op_set_name.op_result op_add_cb.op_result
        op_remove_cb.op_result)

text \<open>However long a callback script is and whatever it decides on the way, it stays quiet.\<close>

interpretation script: quiet_operation "run_script k env"
proof
  fix s
  show "quiet s (snd (run_script k env s))"
  proof (induction k arbitrary: s)
    case (Return x)
    then show ?case by simp
  next
    case (Do op k)
    obtain r s' where rs: "exec_op env op s = (r, s')" by (cases "exec_op env op s")
    have "quiet s' (snd (run_script (k r) env s'))" by (rule Do.IH) simp
    with op_exec.op_result [OF rs] rs show ?case by (auto intro: quiet_trans)
  qed
qed

section \<open>Frames of a turn\<close>

text \<open>
  \<open>silent a s s'\<close>: between \<open>s\<close> and \<open>s'\<close> the outcome of every task, the registry, the gauge and the
  channels are as they were, nobody asked for a turn, and only the running task \<open>a\<close> may have changed
  more than its callback-visible fields.
\<close>

definition same_outcome :: "task_state \<Rightarrow> task_state \<Rightarrow> bool" where
  "same_outcome st st' \<longleftrightarrow>
     finished st' = finished st \<and> finished_cancelled st' = finished_cancelled st \<and>
     cancelled_message st' = cancelled_message st \<and> stored_result st' = stored_result st \<and>
     stored_exception st' = stored_exception st \<and>
     ((coroutine st = None \<longleftrightarrow> task_context st = None) \<longrightarrow>
      (coroutine st' = None \<longleftrightarrow> task_context st' = None))"

definition frame :: "addr \<Rightarrow> event_loop \<Rightarrow> event_loop \<Rightarrow> bool" where
  "frame a s s' \<longleftrightarrow>
     globals s' = globals s \<and>
     (\<forall>b. handler (heap s' b) = handler (heap s b) \<and>
          handler_kwargs (heap s' b) = handler_kwargs (heap s b) \<and>
          response_sender (heap s' b) = response_sender (heap s b)) \<and>
     (\<forall>b. b \<noteq> a \<longrightarrow>
          core_state (lock_state s' b) = core_state (lock_state s b) \<and>
          (finished (lock_state s b) \<and> done_callbacks (lock_state s b) = [] \<longrightarrow>
             done_callbacks (lock_state s' b) = [])) \<and>
     same_outcome (lock_state s a) (lock_state s' a) \<and>
     extends_log (\<lambda>e. \<not> channel_event e) s s'"

definition silent :: "addr \<Rightarrow> event_loop \<Rightarrow> event_loop \<Rightarrow> bool" where
  "silent a s s' \<longleftrightarrow> frame a s s' \<and> (\<forall>b. pending s' b = pending s b)"

lemma frame_refl [simp]: "frame a s s"
  by (simp add: frame_def same_outcome_def)

lemma frame_trans: "frame a s s' \<Longrightarrow> frame a s' s'' \<Longrightarrow> frame a s s''"
proof -
  assume f: "frame a s s'" "frame a s' s''"
  have "finished (lock_state s' b) = finished (lock_state s b)" if "b \<noteq> a" for b
    using f(1) core_state_eqD(6) that unfolding frame_def by metis
  moreover have "same_outcome (lock_state s a) (lock_state s'' a)"
    using f unfolding frame_def same_outcome_def by simp
  moreover have "extends_log (\<lambda>e. \<not> channel_event e) s s''"
    using f extends_log_trans unfolding frame_def by blast
  ultimately show ?thesis using f unfolding frame_def by simp
qed

lemma silent_refl [simp]: "silent a s s"
  by (simp add: silent_def)

lemma silent_trans [trans]: "silent a s s' \<Longrightarrow> silent a s' s'' \<Longrightarrow> silent a s s''"
  unfolding silent_def using frame_trans by fastforce

lemma pending_log: "log s' = es @ log s \<Longrightarrow> pending s' b = sum_list (map (wake b) es) + pending s b"
  by (simp add: pending_def)

lemma quiet_silent: "quiet s s' \<Longrightarrow> silent a s s'"
proof -
  assume q: "quiet s s'"
  then obtain es where es: "log s' = es @ log s" "list_all callback_event es"
    by (auto simp: quiet_def extends_log_def)
  have "sum_list (map (wake b) es) = 0" for b
    using es(2) by (induction es) auto
  then have p: "pending s' b = pending s b" for b using pending_log [OF es(1)] by simp
  have c: "core_task (heap s' b) = core_task (heap s b)" for b using q by (simp add: quiet_def)
  have d: "core_state (lock_state s' b) = core_state (lock_state s b)" for b
    unfolding lock_state_def by (rule core_task_eqD(4) [OF c])
  have o: "same_outcome (lock_state s a) (lock_state s' a)"
    unfolding same_outcome_def core_state_eqD [OF d [of a]] by simp
  have l: "extends_log (\<lambda>e. \<not> channel_event e) s s'"
    using q unfolding quiet_def by (auto intro: extends_log_mono)
  have n: "finished (lock_state s b) \<and> done_callbacks (lock_state s b) = [] \<longrightarrow> done_callbacks (lock_state s' b) = []" for b
    using q by (simp add: quiet_def lock_state_def)
  have g: "globals s' = globals s" using q by (simp add: quiet_def)
  show ?thesis
    unfolding silent_def frame_def using p d o l n g core_task_eqD(1-3) [OF c] by blast
qed

lemma silent_emit: "\<not> channel_event e \<Longrightarrow> (\<And>b. wake b e = 0) \<Longrightarrow> silent a s (emit e s)"
  by (auto simp: silent_def frame_def same_outcome_def extends_log_def intro: exI [of _ "[e]"])

lemma silent_modify: "same_outcome (lock_state s a) (f (lock_state s a)) \<Longrightarrow> silent a s (modify a f s)"
  by (auto simp: silent_def frame_def extends_log_def lock_state_def)

lemma silent_set_state: "same_outcome (lock_state s a) st \<Longrightarrow> silent a s (set_state a st s)"
  using silent_modify [of s a "\<lambda>_. st"] by (simp add: modify_def)

lemma silent_print [simp]: "silent a s (print_error e s)"
  by (simp add: quiet_silent)

lemma silent_script: "run_script k env s = (r, s') \<Longrightarrow> silent a s s'"
  by (rule quiet_silent [OF script.op_result])

lemma silent_close: "silent a s (close_coroutine_quietly env a s)"
proof (cases "coroutine (lock_state s a)")
  case None
  then show ?thesis by (simp add: close_coroutine_quietly_def)
next
  case (Some c)
  obtain r s' where r: "run_script (e_close env (log s) c) env (emit (Closed a) s) = (r, s')" by fastforce
  have "silent a s (emit (Closed a) s)" by (rule silent_emit) simp_all
  also have "silent a \<dots> s'" using r by (rule silent_script)
  also have "silent a s' (print_error r s')" by simp
  finally show ?thesis using Some r by (simp add: close_coroutine_quietly_def)
qed

end
