(* ===== verification/Calm.thy ===== *)
theory Calm
  imports TaskFrame
begin

text \<open>
  What finishing a task does, all in all, and which parts of a turn are \<^emph>\<open>calm\<close>: they neither start a
  turn nor enter, leave or step anything, so they do not change what the current turn has done to the
  coroutine.
\<close>

section \<open>Finishing\<close>

definition final_state :: "completion_kind \<Rightarrow> task_state \<Rightarrow> task_state" where
  "final_state completion st =
     (record_completion completion
        (st\<lparr>finished := True, waiting_on := None, deferred_throw := None\<rparr>))
       \<lparr>registered_with_asyncio := False, done_callbacks := []\<rparr>"

fun notify_event :: "addr \<Rightarrow> event \<Rightarrow> bool" where
  "notify_event a (Unregistered b _) = (b = a)"
| "notify_event a (ScheduledCallback _ _ b _) = (b = a)"
| "notify_event a (Printed _) = True"
| "notify_event a _ = False"

lemma notify_event_simps [simp]:
  "notify_event a e \<Longrightarrow> wake b e = 0" "notify_event a e \<Longrightarrow> \<not> channel_event e"
  by (cases e; simp)+

lemma final_state_fields [simp]:
  "finished (final_state c st)" "waiting_on (final_state c st) = None"
  "deferred_throw (final_state c st) = None" "\<not> registered_with_asyncio (final_state c st)"
  "done_callbacks (final_state c st) = []" "coroutine (final_state c st) = coroutine st"
  "task_context (final_state c st) = task_context st"
  by (cases c; simp add: final_state_def record_completion_def)+

lemma log_only: "emit e (s\<lparr>log := es\<rparr>) = s\<lparr>log := e # es\<rparr>"
  by (simp add: emit_def)

lemma fire_done_callbacks_log:
  "\<exists>es. list_all (notify_event a) es \<and> fire_done_callbacks env a cbs s = s\<lparr>log := es @ log s\<rparr>"
proof (induction cbs arbitrary: s)
  case Nil
  show ?case by (rule exI [of _ "[]"]) simp
next
  case (Cons p cbs)
  obtain cb ctx where p: "p = (cb, ctx)" by (cases p)
  obtain r s1 where r: "fire_callback env a cb ctx s = (r, s1)" by fastforce
  then have "\<exists>es. list_all (notify_event a) es \<and> s1 = s\<lparr>log := es @ log s\<rparr>"
    by (auto simp: fire_callback_def emit_def split: option.splits
        intro: exI [of _ "[]"] exI [of _ "[ScheduledCallback cb ctx a True]"]
          exI [of _ "[ScheduledCallback cb ctx a False]"])
  then obtain es where es: "list_all (notify_event a) es" "s1 = s\<lparr>log := es @ log s\<rparr>" by blast
  define s2 where "s2 = (case r of Inl e \<Rightarrow> emit (Printed e) s1 | Inr _ \<Rightarrow> s1)"
  have "\<exists>es. list_all (notify_event a) es \<and> s2 = s\<lparr>log := es @ log s\<rparr>"
    using es by (cases r) (auto simp: s2_def emit_def intro: exI [of _ "Printed _ # es"])
  then obtain es2 where es2: "list_all (notify_event a) es2" "s2 = s\<lparr>log := es2 @ log s\<rparr>" by blast
  obtain es3 where "list_all (notify_event a) es3" "fire_done_callbacks env a cbs s2 = s2\<lparr>log := es3 @ log s2\<rparr>"
    using Cons.IH by blast
  moreover have "fire_done_callbacks env a (p # cbs) s = fire_done_callbacks env a cbs s2"
    using p r by (cases r) (simp_all add: s2_def)
  ultimately show ?case using es2 by (intro exI [of _ "es3 @ es2"]) simp
qed

lemma unregister_log:
  "\<exists>es. list_all (notify_event a) es \<and> unregister env a s = s\<lparr>log := es @ log s\<rparr>"
  by (cases "e_unregister env (log s) a")
    (auto simp: unregister_def Let_def emit_def print_error_def
      intro: exI [of _ "[Unregistered a _]"] exI [of _ "[Printed _, Unregistered a _]"])

text \<open>The whole effect of finishing an unfinished task whose response is still owed.\<close>

lemma finish_unfinished:
  assumes "\<not> finished (lock_state s a)" "response_sender (heap s a) = Some ch"
  shows "\<exists>es. list_all (notify_event a) es \<and>
    finish env a response completion s =
      s\<lparr>live_tasks := removeAll a (live_tasks s),
        heap := (heap s)(a := (heap s a)\<lparr>tstate := final_state completion (lock_state s a),
                                       response_sender := None\<rparr>),
        in_flight := in_flight s - 1,
        log := Responded ch response # es @ log s\<rparr>"
proof -
  let ?st = "record_completion completion
               ((lock_state s a)\<lparr>finished := True, waiting_on := None, deferred_throw := None\<rparr>)"
  define s2 where "s2 = (set_state a (?st\<lparr>registered_with_asyncio := False, done_callbacks := []\<rparr>) s)
                          \<lparr>live_tasks := removeAll a (live_tasks s)\<rparr>"
  define s3 where "s3 = (if registered_with_asyncio ?st then unregister env a s2 else s2)"
  define s4 where "s4 = fire_done_callbacks env a (done_callbacks ?st) s3"
  obtain es3 where es3: "list_all (notify_event a) es3" "s3 = s2\<lparr>log := es3 @ log s2\<rparr>"
  proof (cases "registered_with_asyncio ?st")
    case True
    then show ?thesis using that unregister_log [of a env s2] by (auto simp: s3_def)
  next
    case False
    then show ?thesis using that [of "[]"] by (simp add: s3_def)
  qed
  obtain es4 where es4: "list_all (notify_event a) es4" "s4 = s3\<lparr>log := es4 @ log s3\<rparr>"
    using fire_done_callbacks_log unfolding s4_def by blast
  have "finish env a response completion s = channel_send a response s4"
    using assms(1) by (simp add: finish_def Let_def s2_def s3_def s4_def)
  moreover have "response_sender (heap s4 a) = Some ch"
    using assms(2) es3 es4 by (simp add: s2_def)
  moreover have "s4 = s2\<lparr>log := es4 @ es3 @ log s2\<rparr>" using es3 es4 by simp
  ultimately have "finish env a response completion s =
      s\<lparr>live_tasks := removeAll a (live_tasks s),
        heap := (heap s)(a := (heap s a)\<lparr>tstate := final_state completion (lock_state s a),
                                       response_sender := None\<rparr>),
        in_flight := in_flight s - 1,
        log := Responded ch response # (es4 @ es3) @ log s\<rparr>"
    by (simp add: channel_send_def s2_def set_state_def emit_def final_state_def)
  then show ?thesis using es3 es4 by (intro exI [of _ "es4 @ es3"]) simp
qed

section \<open>Calm parts of a turn\<close>

text \<open>Events other than starting a turn, entering, leaving and stepping.\<close>

fun calm :: "event \<Rightarrow> bool" where
  "calm (TurnStarted _) = False"
| "calm (Stepped _ _) = False"
| "calm (EnteredTask _ _) = False"
| "calm (LeftTask _ _) = False"
| "calm (EnteredContext _ _) = False"
| "calm (ExitedContext _ _) = False"
| "calm (Sent _) = False"
| "calm (Threw _ _) = False"
| "calm _ = True"

lemma callback_calm: "callback_event e \<Longrightarrow> calm e"
  by (cases e) auto

lemma notify_calm: "notify_event a e \<Longrightarrow> calm e"
  by (cases e) auto

lemma calm_emit: "calm e \<Longrightarrow> extends_log calm s (emit e s)"
  by (simp add: extends_log_def)

lemma calm_print [simp]: "extends_log calm s (print_error e s)"
  by (simp add: print_error_def calm_emit split: option.split)

lemma calm_emit_print: "calm e \<Longrightarrow> extends_log calm s (print_error r (emit e s))"
  using extends_log_trans [OF calm_emit calm_print] .

lemma calm_modify [simp]: "extends_log calm s (modify a f s)" "extends_log calm s (set_state a st s)"
  by (simp_all add: extends_log_def)

lemma calm_quiet: "quiet s s' \<Longrightarrow> extends_log calm s s'"
  using extends_log_mono callback_calm by (auto simp: quiet_def)

lemma calm_script: "run_script k env s = (r, s') \<Longrightarrow> extends_log calm s s'"
  by (rule calm_quiet [OF script.op_result])

lemma calm_future_cancel: "future_cancel env f m s = (r, s') \<Longrightarrow> extends_log calm s s'"
  by (rule calm_quiet [OF fcancel.op_result])

lemma calm_channel_send: "extends_log calm s (channel_send a r s)"
  by (simp add: channel_send_def extends_log_def split: option.split)

lemma calm_notify: "list_all (notify_event a) es \<Longrightarrow> extends_log calm s (s\<lparr>log := es @ log s\<rparr>)"
  unfolding extends_log_def using list.pred_mono_strong [of "notify_event a" es calm] notify_calm by auto

lemma calm_unregister: "extends_log calm s (unregister env a s)"
  using unregister_log [of a env s] calm_notify by auto

lemma calm_fire: "extends_log calm s (fire_done_callbacks env a cbs s)"
  using fire_done_callbacks_log [of a env cbs s] calm_notify by auto

lemma calm_finish: "extends_log calm s (finish env a r c s)"
proof (cases "finished (lock_state s a)")
  case True
  then show ?thesis by (simp add: finish_def Let_def calm_channel_send)
next
  case False
  let ?st = "record_completion c ((lock_state s a)\<lparr>finished := True, waiting_on := None, deferred_throw := None\<rparr>)"
  define s2 where "s2 = (set_state a (?st\<lparr>registered_with_asyncio := False, done_callbacks := []\<rparr>) s)
                          \<lparr>live_tasks := removeAll a (live_tasks s)\<rparr>"
  define s3 where "s3 = (if registered_with_asyncio ?st then unregister env a s2 else s2)"
  have "extends_log calm s s2" by (simp add: s2_def extends_log_def)
  moreover have "extends_log calm s2 s3" by (simp add: s3_def calm_unregister)
  ultimately have "extends_log calm s s3" by (rule extends_log_trans)
  then have "extends_log calm s (channel_send a r (fire_done_callbacks env a (done_callbacks ?st) s3))"
    by (rule extends_log_trans [OF extends_log_trans [OF _ calm_fire] calm_channel_send])
  moreover have "finish env a r c s = channel_send a r (fire_done_callbacks env a (done_callbacks ?st) s3)"
    using False by (simp add: finish_def Let_def s2_def s3_def)
  ultimately show ?thesis by (simp only:)
qed

lemma calm_close: "extends_log calm s (close_coroutine_quietly env a s)"
proof (cases "coroutine (lock_state s a)")
  case (Some c)
  obtain r s1 where r: "run_script (e_close env (log s) c) env (emit (Closed a) s) = (r, s1)" by fastforce
  have "extends_log calm s s1" by (rule extends_log_trans [OF calm_emit calm_script [OF r]]) simp
  then have "extends_log calm s (print_error r s1)" using calm_print extends_log_trans by blast
  with Some r show ?thesis by (simp add: close_coroutine_quietly_def)
qed (simp add: close_coroutine_quietly_def)

lemma calm_abort: "extends_log calm s (abort env a s)"
  unfolding abort_def by (rule extends_log_trans [OF calm_close calm_finish])

lemma calm_reschedule: "extends_log calm s (reschedule_or_abort env a s)"
  unfolding reschedule_or_abort_def Let_def
  by (auto intro: calm_emit_print extends_log_trans [OF calm_emit_print calm_abort])

lemma calm_park: "park_on_future env a y s = (p, s') \<Longrightarrow> extends_log calm s s'"
proof -
  assume p: "park_on_future env a y s = (p, s')"
  define s1 where "s1 = emit (ReadBlocking y) s"
  define s2 where "s2 = emit (AskedLoop y) s1"
  define f where "f = e_clear_blocking env (log s2) y"
  define s3 where "s3 = print_error f (emit (ClearedBlocking y (is_ok f)) s2)"
  define s4 where "s4 = modify a (\<lambda>st. st\<lparr>waiting_on := Some y\<rparr>) s3"
  define c where "c = e_add_done_callback env (log s4) y a"
  define s5 where "s5 = print_error c (emit (AddedDoneCallback y a (is_ok c)) s4)"
  have 1: "extends_log calm s s1" unfolding s1_def by (rule calm_emit) simp
  have 2: "extends_log calm s s2" unfolding s2_def by (rule extends_log_trans [OF 1 calm_emit]) simp
  have 3: "extends_log calm s s3" unfolding s3_def by (rule extends_log_trans [OF 2 calm_emit_print]) simp
  have 4: "extends_log calm s s4" unfolding s4_def by (rule extends_log_trans [OF 3]) simp
  have 5: "extends_log calm s s5" unfolding s5_def by (rule extends_log_trans [OF 4 calm_emit_print]) simp
  have 6: "extends_log calm s (modify a g s5)" for g by (rule extends_log_trans [OF 5]) simp
  show ?thesis
    using p 1 2 3 5 6
    unfolding park_on_future_def Let_def s1_def [symmetric] s2_def [symmetric] f_def [symmetric]
      s3_def [symmetric] s4_def [symmetric] c_def [symmetric] s5_def [symmetric]
    by (auto split: sum.splits if_splits)
qed

lemma calm_mid_step: "extends_log calm s (apply_cancel_requested_mid_step env a s)"
  unfolding apply_cancel_requested_mid_step_def Let_def
  by (auto intro: calm_future_cancel extends_log_trans [OF calm_future_cancel] split: option.split prod.split)

lemma calm_start: "start env a s = (b, s') \<Longrightarrow> extends_log calm s s'"
proof -
  assume st: "start env a s = (b, s')"
  obtain r s1 where r: "run_script (e_call_handler env (log s) (handler (heap s a)) (handler_kwargs (heap s a)))
      env (emit (CalledHandler a) s) = (r, s1)" by fastforce
  have 1: "extends_log calm s s1" by (rule extends_log_trans [OF calm_emit calm_script [OF r]]) simp
  have 2: "extends_log calm s (emit CopiedContext s1)" by (rule extends_log_trans [OF 1 calm_emit]) simp
  have 3: "extends_log calm s t" if "run_script k env (emit (Closed a) (emit (Printed e) (emit CopiedContext s1))) = (x, t)" for k e x t
    by (rule extends_log_trans [OF extends_log_trans [OF extends_log_trans [OF 2 calm_emit] calm_emit]
          calm_script [OF that]]) simp_all
  have fin: "extends_log calm s (finish env a q c (print_error e t))" if "extends_log calm s t" for q c e t
    by (rule extends_log_trans [OF extends_log_trans [OF that calm_print] calm_finish])
  have 4: "extends_log calm s (print_error x (emit (Registered a q) (modify a g (emit CopiedContext s1))))" for x q g
    by (rule extends_log_trans [OF extends_log_trans [OF 2 calm_modify(1)] calm_emit_print]) simp
  have 5: "extends_log calm s (modify a g' (emit (Registered a q) (modify a g (emit CopiedContext s1))))" for g' q g
    by (rule extends_log_trans [OF extends_log_trans [OF extends_log_trans [OF 2 calm_modify(1)] calm_emit]
            calm_modify(1)]) simp
  show ?thesis
    using st r fin [OF 1] fin [OF 3] 4 5
    by (auto simp: start_def Let_def report_handler_error_def split: sum.splits prod.splits if_splits)
qed

lemma calm_choose: "choose_throw env d fut m msg s = (p, s') \<Longrightarrow> extends_log calm s s'"
  by (auto simp: choose_throw_def Let_def intro: calm_emit split: option.splits sum.splits)

section \<open>The step a turn took\<close>

text \<open>
  \<open>last_step a l\<close>: what the coroutine of \<open>a\<close> came to when it was stepped in the current turn, if it
  has been stepped in it.
\<close>

fun last_step :: "addr \<Rightarrow> event list \<Rightarrow> step_outcome option" where
  "last_step a [] = None"
| "last_step a (e # l) =
     (case e of
        Stepped b outcome \<Rightarrow> if b = a then Some outcome else last_step a l
      | TurnStarted b \<Rightarrow> if b = a then None else last_step a l
      | _ \<Rightarrow> last_step a l)"

lemma last_step_calm: "calm e \<Longrightarrow> last_step a (e # l) = last_step a l"
  by (cases e) auto

lemma last_step_extends: "extends_log calm s s' \<Longrightarrow> last_step a (log s') = last_step a (log s)"
proof -
  have "list_all calm es \<Longrightarrow> last_step a (es @ l) = last_step a l" for es l
    by (induction es) (simp_all add: last_step_calm del: last_step.simps(2))
  then show "extends_log calm s s' \<Longrightarrow> last_step a (log s') = last_step a (log s)"
    by (auto simp: extends_log_def)
qed

end
