(* ===== verification/Turn.thy ===== *)
theory Turn
  imports Calm
begin

text \<open>
  The two ways a scheduler turn can go.  Either the turn \<^emph>\<open>yields\<close>: exactly one further turn of
  the task has been arranged (its future holds the task as a callback, or the loop has it queued).
  Or it \<^emph>\<open>completes\<close>: \<open>finish\<close> ran, once, with a response that belongs to the way the handler
  ended.  There is no third way, whatever Python answers.
\<close>

section \<open>Yielding and completing\<close>

text \<open>The response that belongs to each way a task can end, and the step after which it can end so.\<close>

fun rendered :: "handler_response \<Rightarrow> completion_kind \<Rightarrow> bool" where
  "rendered response (Returned v) = (response = snd (response_from_return_value v))"
| "rendered response _ = (response = internal_error)"

fun fits :: "step_outcome option \<Rightarrow> completion_kind \<Rightarrow> bool" where
  "fits step (Returned v) = (step = Some (StepReturned v))"
| "fits step (Raised e) = (step = None \<or> step = Some (StepRaised e) \<and> \<not> is_instance CancelledError e)"
| "fits step (Cancelled m) =
     (step = None \<or> (\<exists>e. step = Some (StepRaised e) \<and> is_instance CancelledError e \<and> m = first_arg e))"
| "fits step Aborted = (step = None \<or> (\<exists>y. step = Some (StepYielded y)))"

fun stepped :: "event \<Rightarrow> bool" where
  "stepped (Stepped _ _) = True"
| "stepped _ = False"

definition log_grows :: "event_loop \<Rightarrow> event_loop \<Rightarrow> bool" where
  "log_grows s s' \<longleftrightarrow>
     (\<exists>es. s' = s\<lparr>log := es @ log s\<rparr> \<and>
        list_all (\<lambda>e. \<not> channel_event e \<and> \<not> stepped e \<and> (\<forall>b. wake b e = 0)) es)"

definition yields :: "addr \<Rightarrow> event_loop \<Rightarrow> event_loop \<Rightarrow> bool" where
  "yields a s s' \<longleftrightarrow> frame a s s' \<and> (\<forall>b. pending s' b = pending s b + (if b = a then 1 else 0))"

text \<open>\<open>ends\<close>: finished, in a turn or not.  \<open>completes\<close>: finished in accordance with the step taken.\<close>

definition ends :: "py_env \<Rightarrow> addr \<Rightarrow> event_loop \<Rightarrow> event_loop \<Rightarrow> bool" where
  "ends env a s s' \<longleftrightarrow>
     (\<exists>s1 response completion. silent a s s1 \<and> rendered response completion \<and>
        log_grows (finish env a response completion s1) s')"

definition completes :: "py_env \<Rightarrow> addr \<Rightarrow> event_loop \<Rightarrow> event_loop \<Rightarrow> bool" where
  "completes env a s s' \<longleftrightarrow>
     (\<exists>s1 response completion. silent a s s1 \<and> rendered response completion \<and>
        fits (last_step a (log s1)) completion \<and> log_grows (finish env a response completion s1) s')"

definition turn_ok :: "py_env \<Rightarrow> addr \<Rightarrow> event_loop \<Rightarrow> event_loop \<Rightarrow> bool" where
  "turn_ok env a s s' \<longleftrightarrow>
     yields a s s' \<and> (\<exists>y. last_step a (log s') = Some (StepYielded y)) \<or> completes env a s s'"

lemma completes_ends: "completes env a s s' \<Longrightarrow> ends env a s s'"
  unfolding completes_def ends_def by blast

lemma log_grows_refl [simp]: "log_grows s s"
  by (auto simp: log_grows_def intro: exI [of _ "[]"])

lemma log_grows_trans: "log_grows s s' \<Longrightarrow> log_grows s' s'' \<Longrightarrow> log_grows s s''"
  unfolding log_grows_def by (metis (no_types, lifting) append.assoc event_loop.select_convs(6)
      event_loop.surjective event_loop.update_convs(6) list_all_append)

lemma log_grows_emit:
  "\<not> channel_event e \<Longrightarrow> \<not> stepped e \<Longrightarrow> (\<And>b. wake b e = 0) \<Longrightarrow> log_grows s (emit e s)"
  by (auto simp: log_grows_def emit_def intro: exI [of _ "[e]"])

lemma log_grows_print [simp]: "log_grows s (print_error e s)"
  by (auto simp: print_error_def intro: log_grows_emit split: option.split)

lemma log_grows_silent: "log_grows s s' \<Longrightarrow> silent a s s'"
proof -
  assume "log_grows s s'"
  then obtain es where es: "s' = s\<lparr>log := es @ log s\<rparr>"
    "list_all (\<lambda>e. \<not> channel_event e \<and> \<not> stepped e \<and> (\<forall>b. wake b e = 0)) es"
    by (auto simp: log_grows_def)
  have "sum_list (map (wake b) es) = 0" for b using es(2) by (induction es) auto
  moreover have "list_all (\<lambda>e. \<not> channel_event e) es"
    using es(2) by (rule list.pred_mono_strong) simp
  ultimately show ?thesis
    by (auto simp: silent_def frame_def es(1) same_outcome_def lock_state_def globals_def
        pending_def extends_log_def)
qed

lemma log_grows_step: "log_grows s s' \<Longrightarrow> last_step a (log s') = last_step a (log s)"
proof -
  assume "log_grows s s'"
  then obtain es where es: "s' = s\<lparr>log := es @ log s\<rparr>"
    "list_all (\<lambda>e. \<not> channel_event e \<and> \<not> stepped e \<and> (\<forall>b. wake b e = 0)) es"
    by (auto simp: log_grows_def)
  have "last_step a (e # l) = last_step a l" if "\<not> stepped e" "\<forall>b. wake b e = 0" for e l
    using that by (cases e) (auto split: if_splits)
  then have "last_step a (es @ l) = last_step a l" for l
    using es(2) by (induction es) (simp_all del: last_step.simps(2))
  then show ?thesis by (simp add: es(1))
qed

lemma silent_turn: "silent a s s1 \<Longrightarrow> turn_ok env a s1 s' \<Longrightarrow> turn_ok env a s s'"
proof -
  assume s: "silent a s s1" and t: "turn_ok env a s1 s'"
  have "yields a s s'" if "yields a s1 s'" using s that by (auto simp: yields_def silent_def intro: frame_trans)
  moreover have "completes env a s s'" if "completes env a s1 s'"
    using that silent_trans [OF s] unfolding completes_def by blast
  ultimately show ?thesis using t unfolding turn_ok_def by blast
qed

lemma yields_silent: "yields a s s1 \<Longrightarrow> silent a s1 s' \<Longrightarrow> yields a s s'"
  unfolding yields_def silent_def using frame_trans by fastforce

lemma silent_yields: "silent a s s1 \<Longrightarrow> yields a s1 s' \<Longrightarrow> yields a s s'"
  unfolding yields_def silent_def by (auto intro: frame_trans)

lemma turn_grows: "turn_ok env a s s1 \<Longrightarrow> log_grows s1 s' \<Longrightarrow> turn_ok env a s s'"
proof -
  assume t: "turn_ok env a s s1" and g: "log_grows s1 s'"
  have "yields a s s'" if "yields a s s1" using yields_silent [OF that log_grows_silent [OF g]] .
  moreover have "completes env a s s'" if "completes env a s s1"
    using that log_grows_trans [OF _ g] unfolding completes_def by blast
  ultimately show ?thesis using t log_grows_step [OF g] unfolding turn_ok_def by auto
qed

lemma finish_completes:
  "rendered r c \<Longrightarrow> fits (last_step a (log s1)) c \<Longrightarrow> silent a s s1 \<Longrightarrow> completes env a s (finish env a r c s1)"
  unfolding completes_def using log_grows_refl by blast

lemma abort_ends: "silent a s s1 \<Longrightarrow> ends env a s (abort env a s1)"
proof -
  assume "silent a s s1"
  then have "silent a s (close_coroutine_quietly env a s1)" using silent_close silent_trans by blast
  moreover have "rendered internal_error Aborted" by simp
  ultimately show ?thesis unfolding abort_def ends_def using log_grows_refl by blast
qed

text \<open>Before the step of a turn, or after a step that yielded, the task may be aborted.\<close>

definition may_abort :: "addr \<Rightarrow> event_loop \<Rightarrow> bool" where
  "may_abort a s \<longleftrightarrow> fits (last_step a (log s)) Aborted"

lemma may_abort_calm: "extends_log calm s s' \<Longrightarrow> may_abort a s' = may_abort a s"
  by (simp add: may_abort_def last_step_extends)

lemma abort_completes: "may_abort a s1 \<Longrightarrow> silent a s s1 \<Longrightarrow> completes env a s (abort env a s1)"
  unfolding abort_def using may_abort_calm [OF calm_close]
  by (intro finish_completes) (auto simp: may_abort_def intro: silent_trans silent_close)

lemma reschedule_turn:
  assumes "last_step a (log s) = Some (StepYielded y)"
  shows "turn_ok env a s (reschedule_or_abort env a s)"
proof (cases "e_call_soon env (log s) a")
  case None
  have "yields a s (emit (ScheduledSoon a True) s)"
    by (auto simp: yields_def frame_def same_outcome_def extends_log_def
        intro: exI [of _ "[ScheduledSoon a True]"])
  with None assms show ?thesis
    by (simp add: turn_ok_def reschedule_or_abort_def is_ok_def print_error_def)
next
  case (Some e)
  let ?t = "print_error (Some e) (emit (ScheduledSoon a False) s)"
  have "silent a s (emit (ScheduledSoon a False) s)" by (rule silent_emit) simp_all
  then have "silent a s ?t" using silent_print silent_trans by blast
  moreover have "may_abort a ?t"
    using assms may_abort_calm [OF calm_emit_print, of "ScheduledSoon a False" a "Some e" s] by (simp add: may_abort_def)
  ultimately show ?thesis
    using Some abort_completes by (simp add: turn_ok_def reschedule_or_abort_def is_ok_def Let_def)
qed

section \<open>Parking\<close>

lemma park_on_future_cases:
  "case park_on_future env a y s of
     (Parked, s') \<Rightarrow> yields a s s'
   | (BadYield e, s') \<Rightarrow> silent a s s'
   | (Failed, s') \<Rightarrow> silent a s s'"
proof -
  define s1 where "s1 = emit (ReadBlocking y) s"
  define s2 where "s2 = emit (AskedLoop y) s1"
  define f where "f = e_clear_blocking env (log s2) y"
  define s3 where "s3 = print_error f (emit (ClearedBlocking y (is_ok f)) s2)"
  define s4 where "s4 = modify a (\<lambda>st. st\<lparr>waiting_on := Some y\<rparr>) s3"
  define c where "c = e_add_done_callback env (log s4) y a"
  define s5 where "s5 = emit (AddedDoneCallback y a (is_ok c)) s4"
  have 1: "silent a s s1" unfolding s1_def by (rule silent_emit) simp_all
  have 2: "silent a s s2" unfolding s2_def by (rule silent_trans [OF 1 silent_emit]) simp_all
  have "silent a s2 (emit (ClearedBlocking y (is_ok f)) s2)" by (rule silent_emit) simp_all
  then have 3: "silent a s s3" unfolding s3_def using 2 silent_print silent_trans by blast
  have "silent a s3 s4" unfolding s4_def by (rule silent_modify) (simp add: same_outcome_def)
  then have 4: "silent a s s4" using 3 silent_trans by blast
  have 5: "yields a s (print_error c s5)" if "is_ok c"
  proof -
    have "yields a s4 s5"
      using that by (auto simp: s5_def yields_def frame_def same_outcome_def extends_log_def)
    from silent_yields [OF 4 this] show ?thesis by (rule yields_silent) simp
  qed
  have 6: "silent a s (modify a (\<lambda>st. st\<lparr>waiting_on := None\<rparr>) (print_error c s5))" if "\<not> is_ok c"
  proof -
    have "silent a s4 s5" unfolding s5_def using that by (intro silent_emit) simp_all
    moreover have "silent a t (modify a (\<lambda>st. st\<lparr>waiting_on := None\<rparr>) t)" for t
      by (rule silent_modify) (simp add: same_outcome_def)
    ultimately show ?thesis using 4 silent_print [of a s5 c] silent_trans by meson
  qed
  show ?thesis
    unfolding park_on_future_def Let_def s1_def [symmetric] s2_def [symmetric] f_def [symmetric]
      s3_def [symmetric] s4_def [symmetric] c_def [symmetric] s5_def [symmetric]
    using 1 2 3 5 6 by (auto split: sum.split)
qed

lemma mid_step_silent: "silent a s (apply_cancel_requested_mid_step env a s)"
proof -
  have m: "silent a t (modify a (\<lambda>st. st\<lparr>must_cancel := False\<rparr>) t)" for t
    by (rule silent_modify) (simp add: same_outcome_def)
  have "silent a s s'" if "future_cancel env f msg s = (r, s')" for f msg r s'
    using that by (rule quiet_silent [OF fcancel.op_result])
  then show ?thesis
    using m silent_trans
    by (fastforce simp: apply_cancel_requested_mid_step_def Let_def split: option.split prod.split)
qed

section \<open>Steps\<close>

lemma send_step_silent:
  assumes s: "send_step env a coro s = (out, s')"
  shows "silent a s s' \<and> last_step a (log s') = Some out"
proof -
  obtain r s1 where r: "run_script (e_send env (log s) coro) env (emit (Sent a) s) = (r, s1)" by fastforce
  have "silent a s (emit (Sent a) s)" by (rule silent_emit) simp_all
  also have "silent a \<dots> s1" using r by (rule silent_script)
  also have "silent a s1 (emit (Stepped a out) s1)" by (rule silent_emit) simp_all
  finally show ?thesis using s r by (auto simp: send_step_def Let_def)
qed

lemma throw_step_silent:
  assumes s: "throw_step env a coro e s = (out, s')"
  shows "silent a s s' \<and> last_step a (log s') = Some out"
proof -
  obtain r s1 where r: "run_script (e_throw env (log s) coro e) env (emit (Threw a e) s) = (r, s1)" by fastforce
  have "silent a s (emit (Threw a e) s)" by (rule silent_emit) simp_all
  also have "silent a \<dots> s1" using r by (rule silent_script)
  also have "silent a s1 (emit (Stepped a out) s1)" by (rule silent_emit) simp_all
  finally show ?thesis using s r by (auto simp: throw_step_def Let_def)
qed

lemma step_once_turn: "turn_ok env a s (step_once env a coro pending_throw s)"
proof -
  obtain out s1 where o: "(case pending_throw of Some exc \<Rightarrow> throw_step env a coro exc s
                             | None \<Rightarrow> send_step env a coro s) = (out, s1)" by fastforce
  then have s1: "silent a s s1" and l: "last_step a (log s1) = Some out"
    using send_step_silent throw_step_silent by (cases pending_throw; auto)+
  have pr: "silent a s (print_error e s1)" for e using s1 silent_print silent_trans by blast
  have lp: "last_step a (log (print_error e s1)) = Some out" for e using l last_step_extends [OF calm_print] by simp
  show ?thesis
  proof (cases out)
    case (StepReturned v)
    obtain p r where "response_from_return_value v = (p, r)" by fastforce
    with StepReturned o lp finish_completes [OF _ _ pr, of r "Returned v" p env] show ?thesis
      by (simp add: step_once_def turn_ok_def)
  next
    case (StepRaised e)
    with o s1 l pr lp show ?thesis
      by (auto simp: step_once_def turn_ok_def report_handler_error_def intro!: finish_completes)
  next
    case (StepYielded y)
    show ?thesis
    proof (cases "y = PyNone")
      case True
      with StepYielded o l silent_turn [OF s1 reschedule_turn] show ?thesis by (simp add: step_once_def)
    next
      case False
      obtain p s2 where p: "park_on_future env a y s1 = (p, s2)" by fastforce
      note park = park_on_future_cases [where env = env and a = a and y = y and s = s1, unfolded p]
      have l2: "last_step a (log s2) = Some (StepYielded y)"
        using l StepYielded last_step_extends [OF calm_park [OF p]] by simp
      show ?thesis
      proof (cases p)
        case Parked
        let ?s3 = "apply_cancel_requested_mid_step env a s2"
        have "yields a s1 s2" using park Parked by simp
        then have "yields a s1 ?s3" using yields_silent mid_step_silent by blast
        moreover have "last_step a (log ?s3) = Some (StepYielded y)" using l2 last_step_extends [OF calm_mid_step] by simp
        ultimately show ?thesis
          using silent_turn [OF s1] Parked StepYielded o False p
          by (simp add: step_once_def turn_ok_def [of env a s1])
      next
        case (BadYield e)
        let ?s3 = "modify a (\<lambda>st. st\<lparr>deferred_throw := Some e\<rparr>) s2"
        have "silent a s2 ?s3" by (rule silent_modify) (simp add: same_outcome_def)
        then have "silent a s ?s3" using s1 park BadYield silent_trans by auto
        with silent_turn [OF _ reschedule_turn] l2 BadYield StepYielded o False p show ?thesis
          by (simp add: step_once_def)
      next
        case Failed
        then have "silent a s s2" using s1 park silent_trans by auto
        with abort_completes l2 Failed StepYielded o False p show ?thesis
          by (simp add: step_once_def turn_ok_def may_abort_def)
      qed
    qed
  qed
qed

lemma start_cases:
  assumes "last_step a (log s) = None"
  shows "case start env a s of
     (True, s') \<Rightarrow> silent a s s' \<and> last_step a (log s') = None \<and>
       coroutine (lock_state s' a) \<noteq> None \<and> task_context (lock_state s' a) \<noteq> None
   | (False, s') \<Rightarrow> completes env a s s'"
proof -
  obtain r s1 where r: "run_script (e_call_handler env (log s) (handler (heap s a)) (handler_kwargs (heap s a)))
      env (emit (CalledHandler a) s) = (r, s1)" by fastforce
  have "silent a s (emit (CalledHandler a) s)" by (rule silent_emit) simp_all
  also have "silent a \<dots> s1" using r by (rule silent_script)
  finally have s1: "silent a s s1" .
  have c1: "extends_log calm s s1" by (rule extends_log_trans [OF calm_emit calm_script [OF r]]) simp
  have none: "fits (last_step a (log t)) (Raised e)" "fits (last_step a (log t)) Aborted"
    if "extends_log calm s t" for t e using assms last_step_extends [OF that] by simp_all
  have pr: "silent a s (print_error e t)" if "silent a s t" for e t using that silent_print silent_trans by blast
  have cp: "extends_log calm s (print_error e t)" if "extends_log calm s t" for e t
    using that calm_print extends_log_trans by blast
  show ?thesis
  proof (cases r)
    case (Inl e)
    with r pr [OF s1] none [OF cp [OF c1]] show ?thesis
      by (auto simp: start_def report_handler_error_def intro!: finish_completes)
  next
    case (Inr coro)
    define s2 where "s2 = emit CopiedContext s1"
    have s2: "silent a s s2" unfolding s2_def by (rule silent_trans [OF s1 silent_emit]) simp_all
    have c2: "extends_log calm s s2" unfolding s2_def by (rule extends_log_trans [OF c1 calm_emit]) simp
    show ?thesis
    proof (cases "e_copy_context env (log s1)")
      case (Inl ce)
      define s3 where "s3 = emit (Closed a) (emit (Printed ce) s2)"
      have "silent a s2 (emit (Printed ce) s2)" "silent a (emit (Printed ce) s2) s3"
        unfolding s3_def by (rule silent_emit; simp)+
      then have s3: "silent a s s3" using s2 silent_trans by blast
      have c3: "extends_log calm s s3" unfolding s3_def
        by (rule extends_log_trans [OF extends_log_trans [OF c2 calm_emit] calm_emit]) simp_all
      obtain cl s4 where c: "run_script (e_close env (log (emit (Printed ce) s2)) coro) env s3 = (cl, s4)" by fastforce
      have "silent a s (print_error cl s4)" using s3 silent_script [OF c] pr silent_trans by blast
      with Inl Inr r c none(2) [OF cp [OF extends_log_trans [OF c3 calm_script [OF c]]]] show ?thesis
        by (auto simp: start_def Let_def s2_def [symmetric] s3_def [symmetric] intro!: finish_completes)
    next
      case (Inr ctx)
      define s3 where "s3 = modify a (\<lambda>st. st\<lparr>coroutine := Some coro, task_context := Some ctx\<rparr>) s2"
      have "silent a s2 s3" unfolding s3_def by (rule silent_modify) (simp add: same_outcome_def)
      then have s3: "silent a s s3" using s2 silent_trans by blast
      define g where "g = e_register env (log s3) a"
      define s4 where "s4 = emit (Registered a (is_ok g)) s3"
      have s4: "silent a s s4" unfolding s4_def by (rule silent_trans [OF s3 silent_emit]) simp_all
      have "silent a s4 (modify a (\<lambda>st. st\<lparr>registered_with_asyncio := True\<rparr>) s4)"
        by (rule silent_modify) (simp add: same_outcome_def)
      then have s5: "silent a s (modify a (\<lambda>st. st\<lparr>registered_with_asyncio := True\<rparr>) s4)"
        using s4 silent_trans by blast
      have eq: "start env a s = (True, if is_ok g then modify a (\<lambda>st. st\<lparr>registered_with_asyncio := True\<rparr>) s4
              else print_error g s4)"
        using Inr \<open>r = Inr coro\<close> r
        by (simp add: start_def Let_def s2_def [symmetric] s3_def [symmetric] g_def [symmetric] s4_def)
      moreover have "coroutine (lock_state s4 a) = Some coro" "task_context (lock_state s4 a) = Some ctx"
        by (simp_all add: s4_def s3_def)
      moreover have "lock_state (print_error g s4) = lock_state s4"
        by (rule ext) (simp add: print_error_def split: option.split)
      moreover have "last_step a (log (snd (start env a s))) = None"
        using assms last_step_extends [OF calm_start, of env a s True "snd (start env a s)" a] eq by simp
      ultimately show ?thesis using s5 pr [OF s4] by simp
    qed
  qed
qed

section \<open>The turn\<close>

lemma choose_throw_silent:
  "choose_throw env deferred fut must msg s = (p, s') \<Longrightarrow> silent a s s' \<and> heap s' = heap s"
  by (auto simp: choose_throw_def Let_def intro: silent_emit split: option.splits sum.splits)

lemma run_in_context_turn:
  assumes none: "last_step a (log s) = None"
  shows "turn_ok env a s (run_in_context env a coro ctx p s)"
proof -
  define n where "n = e_enter_task env (log s) a"
  define s1 where "s1 = print_error n (emit (EnteredTask a (is_ok n)) s)"
  define c where "c = e_context_enter env (log s1) ctx"
  define s2 where "s2 = print_error c (emit (EnteredContext a (is_ok c)) s1)"
  define s3 where "s3 = step_once env a coro p s2"
  define x where "x = e_context_exit env (log s3) ctx"
  define s4 where "s4 = print_error x (emit (ExitedContext a (is_ok x)) s3)"
  have pe: "silent a t (print_error r (emit e t))" if "\<not> channel_event e" "\<And>b. wake b e = 0" for r e t
    using silent_trans [OF silent_emit [OF that] silent_print] by simp
  have s1: "silent a s s1" unfolding s1_def by (rule pe) simp_all
  have s2: "silent a s s2" unfolding s2_def by (rule silent_trans [OF s1 pe]) simp_all
  have lv: "silent a t (snd (leave_task env a t))" for t
    by (auto simp: leave_task_def Let_def intro: silent_emit)
  have lg: "log_grows t (print_error r (emit e t))" if "\<not> channel_event e" "\<not> stepped e" "\<And>b. wake b e = 0" for r e t
    using log_grows_trans [OF log_grows_emit [OF that] log_grows_print] by simp
  have s3: "turn_ok env a s s3" unfolding s3_def by (rule silent_turn [OF s2 step_once_turn])
  have s4: "turn_ok env a s s4" unfolding s4_def by (rule turn_grows [OF s3 lg]) simp_all
  have s6: "turn_ok env a s (print_error l s5)" if "leave_task env a s4 = (l, s5)" for l s5
    using that turn_grows [OF s4 lg] by (auto simp: leave_task_def Let_def)
  have l1: "last_step a (log s1) = None" and l2: "last_step a (log s2) = None"
    using none by (simp_all add: s1_def s2_def print_error_def split: option.split)
  have ab: "turn_ok env a s (abort env a t)" if "silent a s t" "last_step a (log t) = None" for t
    using abort_completes [OF _ that(1)] that(2) by (simp add: turn_ok_def may_abort_def)
  show ?thesis
    unfolding run_in_context_def Let_def n_def [symmetric] s1_def [symmetric] c_def [symmetric]
      s2_def [symmetric] s3_def [symmetric] x_def [symmetric] s4_def [symmetric]
    using ab [OF s1 l1] ab [OF silent_trans [OF s2 lv]] l2 s6
    by (simp add: leave_task_def Let_def split: prod.split)
qed

text \<open>A turn of an unfinished task yields or completes.\<close>

lemma call_task_turn:
  assumes unfinished: "\<not> finished (lock_state s a)"
    and ctx: "coroutine (lock_state s a) = None \<longleftrightarrow> task_context (lock_state s a) = None"
  shows "turn_ok env a (emit (TurnStarted a) s) (call_task env a fut s)"
proof -
  let ?st = "lock_state s a"
  define s0 where "s0 = emit (TurnStarted a) s"
  define s1 where "s1 = set_state a (?st\<lparr>waiting_on := None, must_cancel := False, cancel_message := None,
                                 deferred_throw := None\<rparr>) s0"
  have st: "lock_state s0 a = ?st" by (simp add: s0_def)
  have s1: "silent a s0 s1" unfolding s1_def by (rule silent_set_state) (simp add: st same_outcome_def)
  obtain running s2 where r: "(if coroutine ?st = None then start env a s1 else (True, s1)) = (running, s2)"
    by fastforce
  obtain must where must: "must_cancel ?st = must" by simp
  obtain p s3 where c: "choose_throw env (deferred_throw ?st) fut must (cancel_message ?st) s2 = (p, s3)"
    by fastforce
  have l1: "last_step a (log s1) = None" by (simp add: s1_def s0_def)
  have fin: "turn_ok env a s0 (finish env a internal_error (Cancelled m) s1)" for m
    using finish_completes [OF _ _ s1] l1 by (simp add: turn_ok_def)
  have stop: "turn_ok env a s0 s2" if "\<not> running"
    using that r start_cases [OF l1, where env = env] silent_turn [OF s1]
    by (auto simp: turn_ok_def [of env a s1] split: if_splits)
  have go: "silent a s0 s2 \<and> last_step a (log s2) = None \<and> coroutine (lock_state s2 a) \<noteq> None \<and> task_context (lock_state s2 a) \<noteq> None"
    if running
    using that r start_cases [OF l1, where env = env] s1 l1 ctx
    by (auto simp: s1_def st split: if_splits intro: silent_trans)
  have run: "turn_ok env a s0 (run_in_context env a coro k p s3)" if running for coro k
  proof -
    have "last_step a (log s3) = None" using go [OF that] last_step_extends [OF calm_choose [OF c]] by simp
    then show ?thesis
      using go [OF that] choose_throw_silent [OF c] silent_turn [OF _ run_in_context_turn] silent_trans by blast
  qed
  have "lock_state s3 = lock_state s2" using choose_throw_silent [OF c] by (auto simp: lock_state_def)
  with fin stop go run have "turn_ok env a s0 (call_task env a fut s)"
    unfolding call_task_def Let_def s0_def [symmetric] st s1_def [symmetric] r must c prod.case
    using unfinished by (auto split: option.split)
  then show ?thesis by (simp add: s0_def)
qed

end
