(* ===== verification/EventLoop.thy ===== *)
theory EventLoop
  imports Turn
begin

text \<open>
  \<open>EventLoop\<close> and \<open>DispatchedRequest\<close> of \<open>crates/dispatch/src/lib.rs\<close>: starting a loop, scheduling
  a request on it, cancelling what is in flight, dropping a request whose client went away, and
  stopping the loop.
\<close>

section \<open>Starting a loop\<close>

text \<open>
  What \<open>EventLoop::start\<close> asks of Python and of the operating system: the module imports, a new
  asyncio loop, the four task hooks, the display of an error, and the spawning of a named thread.
\<close>

record start_env =
  s_import_asyncio :: "pyobj option"
  s_new_event_loop :: "rstr \<Rightarrow> pyobj + pyobj"
  s_tasks_module :: "pyobj option"
  s_hook :: "rstr \<Rightarrow> pyobj option"
  s_display :: "pyobj \<Rightarrow> rstr"
  s_spawn :: "rstr \<Rightarrow> pyobj option"

definition missing_hook_error :: "start_env \<Rightarrow> rstr \<Rightarrow> pyobj \<Rightarrow> pyobj" where
  "missing_hook_error senv hook_name attribute_error =
     new_err RuntimeError
       (lit ''Rayo's scheduler integrates with asyncio through asyncio.tasks.'' @ hook_name
        @ lit '' (one of CPython's task-extension hooks, present since 3.7), which this Python build does not provide: ''
        @ s_display senv attribute_error)"

definition task_hooks :: "rstr list" where
  "task_hooks = [lit ''_enter_task'', lit ''_leave_task'', lit ''_register_task'', lit ''_unregister_task'']"

fun first_missing_hook :: "start_env \<Rightarrow> rstr list \<Rightarrow> pyobj option" where
  "first_missing_hook senv [] = None"
| "first_missing_hook senv (h # hs) =
     (case s_hook senv h of
        Some e \<Rightarrow> Some (missing_hook_error senv h e)
      | None \<Rightarrow> first_missing_hook senv hs)"

definition empty_task :: handler_task where
  "empty_task = \<lparr>handler = PyNone, handler_kwargs = PyNone, response_sender = None,
                 tstate = default_task_state\<rparr>"

definition new_loop :: "pyobj \<Rightarrow> event_loop" where
  "new_loop l =
     \<lparr>loop_object = l, live_tasks = [], heap = (\<lambda>_. empty_task), allocated = {}, in_flight = 0,
      next_channel = 0, thread_running = True, log = []\<rparr>"

definition loop_start :: "start_env \<Rightarrow> rstr \<Rightarrow> pyobj + event_loop" where
  "loop_start senv thread_name =
     (case s_import_asyncio senv of Some e \<Rightarrow> Inl e | None \<Rightarrow>
      case s_new_event_loop senv thread_name of Inl e \<Rightarrow> Inl e | Inr l \<Rightarrow>
      case s_tasks_module senv of Some e \<Rightarrow> Inl e | None \<Rightarrow>
      case first_missing_hook senv task_hooks of Some e \<Rightarrow> Inl e | None \<Rightarrow>
      case s_spawn senv thread_name of Some e \<Rightarrow> Inl e | None \<Rightarrow> Inr (new_loop l))"

text \<open>The body of the loop thread: the errors it prints, in order.\<close>

definition loop_thread_main :: "pyobj option \<Rightarrow> pyobj option \<Rightarrow> pyobj option \<Rightarrow> pyobj list" where
  "loop_thread_main renamed run_forever close =
     List.map_filter id [renamed, run_forever, close]"

definition in_flight_count :: "event_loop \<Rightarrow> usize" where
  "in_flight_count s = in_flight s"

section \<open>Dispatching a request\<close>

record dispatched_request =
  response_receiver :: nat
  request_task :: "addr option"

definition failed :: "nat \<Rightarrow> dispatched_request" where
  "failed receiver = \<lparr>response_receiver = receiver, request_task = None\<rparr>"

definition call_soon_threadsafe :: "py_env \<Rightarrow> target \<Rightarrow> event_loop \<Rightarrow> pyobj option \<times> event_loop" where
  "call_soon_threadsafe env t s =
     (let r = e_call_soon_threadsafe env (log s) t in (r, emit (ScheduledThreadsafe t (is_ok r)) s))"

text \<open>
  \<open>Py::new\<close>: the task object with its channel, its state the default one.  When the allocation
  fails the channel goes down with the value that was to be moved into the object.
\<close>

definition new_task :: "pyobj \<Rightarrow> pyobj \<Rightarrow> nat \<Rightarrow> handler_task" where
  "new_task h kwargs ch =
     \<lparr>handler = h, handler_kwargs = kwargs, response_sender = Some ch, tstate = default_task_state\<rparr>"

definition allocate :: "py_env \<Rightarrow> pyobj \<Rightarrow> pyobj \<Rightarrow> nat \<Rightarrow> event_loop \<Rightarrow> (pyobj + addr) \<times> event_loop" where
  "allocate env h kwargs ch s =
     (case e_allocate env (log s) of
        Inl e \<Rightarrow>
          (Inl e, emit (SenderDropped ch) ((emit (Allocated False) s)\<lparr>in_flight := in_flight s - 1\<rparr>))
      | Inr a \<Rightarrow>
          (Inr a, (emit (Allocated True) s)\<lparr>heap := (heap s)(a := new_task h kwargs ch),
                                            allocated := insert a (allocated s)\<rparr>))"

definition schedule ::
    "py_env \<Rightarrow> pyobj \<Rightarrow> pyobj \<Rightarrow> event_loop \<Rightarrow> dispatched_request \<times> event_loop" where
  "schedule env h kwargs s =
     (let ch = next_channel s;
          s1 = s\<lparr>next_channel := next_channel s + 1, in_flight := in_flight s + 1\<rparr>
      in case allocate env h kwargs ch s1 of
           (Inl allocation_error, s2) \<Rightarrow> (failed ch, emit (Printed allocation_error) s2)
         | (Inr a, s2) \<Rightarrow>
             let s3 = s2\<lparr>live_tasks := a # removeAll a (live_tasks s2)\<rparr>;
                 (scheduled, s4) = call_soon_threadsafe env (TStep a) s3
             in case scheduled of
                  Some scheduling_error \<Rightarrow>
                    (let s5 = emit (Printed scheduling_error) s4;
                         s6 = s5\<lparr>live_tasks := removeAll a (live_tasks s5)\<rparr>
                     in (failed ch, channel_send a internal_error s6))
                | None \<Rightarrow> (\<lparr>response_receiver = ch, request_task = Some a\<rparr>, s4))"

text \<open>
  Awaiting the receiver: \<open>None\<close> while the channel is open, then the response, or \<open>Some None\<close> when
  the sender was dropped.  What is read is what was last done to the channel; nothing here says that
  there is one such event at most, which is for the scheduler to ensure.
\<close>

fun channel_outcome :: "nat \<Rightarrow> event list \<Rightarrow> handler_response option option" where
  "channel_outcome ch [] = None"
| "channel_outcome ch (e # es) =
     (case e of
        Responded c response \<Rightarrow> if c = ch then Some (Some response) else channel_outcome ch es
      | SenderDropped c \<Rightarrow> if c = ch then Some None else channel_outcome ch es
      | _ \<Rightarrow> channel_outcome ch es)"

definition response ::
    "dispatched_request \<Rightarrow> event_loop \<Rightarrow> (handler_response option \<times> dispatched_request) option" where
  "response request s =
     map_option (\<lambda>outcome. (outcome, request\<lparr>request_task := None\<rparr>))
       (channel_outcome (response_receiver request) (log s))"

section \<open>Cancelling and stopping\<close>

text \<open>\<open>Drop for DispatchedRequest\<close>.\<close>

definition drop_request :: "py_env \<Rightarrow> dispatched_request \<Rightarrow> event_loop \<Rightarrow> event_loop" where
  "drop_request env request s =
     (case request_task request of
        None \<Rightarrow> s
      | Some a \<Rightarrow>
          if finished (lock_state s a) then s
          else snd (call_soon_threadsafe env (TCancel a) s))"

text \<open>
  The errors of looking up the bound \<open>cancel\<close> method and of handing it to the loop are discarded
  alike, so both are a \<open>call_soon_threadsafe\<close> that failed.
\<close>

fun schedule_cancels :: "py_env \<Rightarrow> addr list \<Rightarrow> event_loop \<Rightarrow> event_loop" where
  "schedule_cancels env [] s = s"
| "schedule_cancels env (a # as) s =
     schedule_cancels env as (snd (call_soon_threadsafe env (TCancel a) s))"

definition cancel_in_flight :: "py_env \<Rightarrow> event_loop \<Rightarrow> event_loop" where
  "cancel_in_flight env s = schedule_cancels env (live_tasks s) s"

text \<open>
  \<open>stop\<close> up to the join: the call that takes the thread handle asks the loop to stop.  While
  \<open>join\<close> waits the loop thread goes on running until it sees the request; \<open>running\<close> stands for
  what it does.  Then what is left in the registry is drained and disposed of.
\<close>

definition request_stop :: "py_env \<Rightarrow> event_loop \<Rightarrow> event_loop" where
  "request_stop env s =
     (let s0 = s\<lparr>thread_running := False\<rparr> in
      if e_has_stop env (log s) then
        (case call_soon_threadsafe env TStop s0 of (r, s1) \<Rightarrow> print_error r s1)
      else s0)"

fun dispose_all :: "py_env \<Rightarrow> addr list \<Rightarrow> event_loop \<Rightarrow> event_loop" where
  "dispose_all env [] s = s"
| "dispose_all env (a # as) s = dispose_all env as (dispose env a s)"

definition drain_registry :: "py_env \<Rightarrow> event_loop \<Rightarrow> event_loop" where
  "drain_registry env s = dispose_all env (live_tasks s) (s\<lparr>live_tasks := []\<rparr>)"

definition stop :: "py_env \<Rightarrow> (event_loop \<Rightarrow> event_loop) \<Rightarrow> event_loop \<Rightarrow> event_loop" where
  "stop env running s =
     (let s1 = (if thread_running s then
                  (let s0 = running (request_stop env s) in emit (Joined (\<not> e_join_panicked env (log s0))) s0)
                else s)
      in drain_registry env s1)"

text \<open>The last reference to a task object goes away: its channel is dropped with it.\<close>

definition deallocate :: "addr \<Rightarrow> event_loop \<Rightarrow> event_loop" where
  "deallocate a s = (channel_drop a s)\<lparr>allocated := allocated s - {a}\<rparr>"

end
