(* ===== verification/LoopInvariant.thy ===== *)
theory LoopInvariant
  imports EventLoop
begin

text \<open>
  The accounting of an event loop.  A list \<open>L\<close> of tasks is \<^emph>\<open>owed\<close> when it lists, once each, exactly
  the allocated tasks whose response has not been sent; the gauge counts it, and every channel handed
  out is either held by one of them or resolved exactly once.  The registry of a loop is such a list,
  and each task in it has exactly one turn coming.
\<close>

section \<open>The invariant\<close>

fun resolves :: "nat \<Rightarrow> event \<Rightarrow> bool" where
  "resolves ch (Responded c _) = (c = ch)"
| "resolves ch (SenderDropped c) = (c = ch)"
| "resolves ch _ = False"

definition resolutions :: "nat \<Rightarrow> event_loop \<Rightarrow> nat" where
  "resolutions ch s = length (filter (resolves ch) (log s))"

definition senders :: "addr set \<Rightarrow> event_loop \<Rightarrow> nat option set" where
  "senders A s = (\<lambda>a. response_sender (heap s a)) ` A"

definition channels_ok :: "addr set \<Rightarrow> event_loop \<Rightarrow> bool" where
  "channels_ok A s \<longleftrightarrow>
     inj_on (\<lambda>a. response_sender (heap s a)) A \<and>
     (\<forall>ch. Some ch \<in> senders A s \<longrightarrow> ch < next_channel s) \<and>
     (\<forall>ch. resolutions ch s = (if ch < next_channel s \<and> Some ch \<notin> senders A s then 1 else 0))"

definition context_ok :: "task_state \<Rightarrow> bool" where
  "context_ok st \<longleftrightarrow> (coroutine st = None \<longleftrightarrow> task_context st = None)"

text \<open>No outcome recorded yet.\<close>

definition unsettled :: "task_state \<Rightarrow> bool" where
  "unsettled st \<longleftrightarrow> \<not> finished st \<and> \<not> finished_cancelled st \<and> cancelled_message st = None \<and>
     stored_result st = None \<and> stored_exception st = None"

definition owed :: "addr list \<Rightarrow> event_loop \<Rightarrow> bool" where
  "owed L s \<longleftrightarrow>
     finite (allocated s) \<and> distinct L \<and>
     (\<forall>a. a \<in> set L \<longleftrightarrow> a \<in> allocated s \<and> response_sender (heap s a) \<noteq> None) \<and>
     (\<forall>a \<in> set L. unsettled (lock_state s a)) \<and>
     (\<forall>a \<in> allocated s. context_ok (lock_state s a)) \<and>
     in_flight s = of_nat (length L) \<and>
     channels_ok (set L) s"

definition wakes_ok :: "addr list \<Rightarrow> event_loop \<Rightarrow> bool" where
  "wakes_ok L s \<longleftrightarrow>
     (\<forall>a. 0 \<le> pending s a) \<and>
     (\<forall>a. 0 < pending s a \<longrightarrow> a \<in> allocated s \<and> (finished (lock_state s a) \<or> a \<in> set L)) \<and>
     (\<forall>a \<in> set L. pending s a = 1)"

definition loop_inv :: "event_loop \<Rightarrow> bool" where
  "loop_inv s \<longleftrightarrow> owed (live_tasks s) s \<and> wakes_ok (live_tasks s) s"

lemma resolves_channel [simp]: "\<not> channel_event e \<Longrightarrow> \<not> resolves ch e"
  by (cases e) auto

lemma filter_no_channel: "list_all (\<lambda>e. \<not> channel_event e) es \<Longrightarrow> filter (resolves ch) es = []"
  by (induction es) auto

lemma resolutions_extends:
  "extends_log (\<lambda>e. \<not> channel_event e) s s' \<Longrightarrow> resolutions ch s' = resolutions ch s"
  by (auto simp: extends_log_def resolutions_def filter_no_channel)

section \<open>Frames keep the accounting\<close>

lemma frame_globals:
  "frame a s s' \<Longrightarrow> live_tasks s' = live_tasks s \<and> allocated s' = allocated s \<and>
     in_flight s' = in_flight s \<and> next_channel s' = next_channel s \<and>
     thread_running s' = thread_running s"
  by (simp add: frame_def globals_def)

lemma frame_sender: "frame a s s' \<Longrightarrow> response_sender (heap s' b) = response_sender (heap s b)"
  by (simp add: frame_def)

lemma frame_core: "frame a s s' \<Longrightarrow> b \<noteq> a \<Longrightarrow> core_state (lock_state s' b) = core_state (lock_state s b)"
  by (simp add: frame_def)

lemma frame_finished: "frame a s s' \<Longrightarrow> finished (lock_state s' b) = finished (lock_state s b)"
  using core_state_eqD(6) [OF frame_core, of a s s' b] by (cases "b = a") (simp_all add: frame_def same_outcome_def)

lemma frame_unsettled: "frame a s s' \<Longrightarrow> unsettled (lock_state s b) \<Longrightarrow> unsettled (lock_state s' b)"
  using core_state_eqD(6-10) [OF frame_core, of a s s' b]
  by (cases "b = a") (simp_all add: frame_def same_outcome_def unsettled_def)

lemma unsettled_unfinished [simp]: "unsettled st \<Longrightarrow> \<not> finished st"
  by (simp add: unsettled_def)

lemma default_task_state_ok [simp]: "unsettled default_task_state" "context_ok default_task_state"
  by (simp_all add: unsettled_def default_task_state_def context_ok_def)

lemma frame_context:
  assumes f: "frame a s s'" and c: "context_ok (lock_state s b)"
  shows "context_ok (lock_state s' b)"
proof (cases "b = a")
  case True
  with f c show ?thesis by (simp add: frame_def same_outcome_def context_ok_def)
next
  case False
  from core_state_eqD(1,2) [OF frame_core [OF f this]] c show ?thesis by (simp add: context_ok_def)
qed

lemma frame_owed:
  assumes "frame a s s'" "owed L s"
  shows "owed L s'"
proof -
  have "resolutions ch s' = resolutions ch s" for ch
    using assms(1) by (intro resolutions_extends) (simp add: frame_def)
  then show ?thesis
    using assms frame_globals [OF assms(1)] frame_unsettled [OF assms(1)]
      frame_context [OF assms(1)] frame_sender [OF assms(1)]
    by (simp add: owed_def channels_ok_def senders_def)
qed

lemma frame_wakes:
  assumes "frame a s s'" "wakes_ok L s" "\<And>b. pending s' b = pending s b"
  shows "wakes_ok L s'"
  using assms(2,3) frame_globals [OF assms(1)] frame_finished [OF assms(1)] by (simp add: wakes_ok_def)

lemma silent_loop_inv: "silent a s s' \<Longrightarrow> loop_inv s \<Longrightarrow> loop_inv s'"
  unfolding loop_inv_def silent_def using frame_owed frame_wakes frame_globals by metis

section \<open>Completing a task settles its account\<close>

lemma channels_settle:
  assumes ok: "channels_ok A s" and a: "a \<in> A" "response_sender (heap s a) = Some ch"
    and s': "next_channel s' = next_channel s" "\<And>b. b \<noteq> a \<Longrightarrow> response_sender (heap s' b) = response_sender (heap s b)"
    and r: "\<And>c. resolutions c s' = (if c = ch then 1 else 0) + resolutions c s"
  shows "channels_ok (A - {a}) s'"
proof -
  have e: "senders (A - {a}) s' = senders (A - {a}) s"
    unfolding senders_def using s'(2) by (intro image_cong) auto
  have i: "inj_on (\<lambda>b. response_sender (heap s b)) A" using ok by (simp add: channels_ok_def)
  have "inj_on (\<lambda>b. response_sender (heap s' b)) (A - {a})"
    using inj_on_subset [OF i, of "A - {a}"] s'(2) by (auto simp: inj_on_def)
  moreover have "senders (A - {a}) s = senders A s - {Some ch}"
    using i a unfolding senders_def by (auto simp: inj_on_def)
  moreover have "Some ch \<in> senders A s" using a by (force simp: senders_def)
  ultimately show ?thesis
    using ok by (auto simp: channels_ok_def e s' r)
qed

lemma ends_settles:
  assumes c: "ends env a s s'" and L: "owed L s" "a \<in> set L"
  shows "owed (removeAll a L) s' \<and> live_tasks s' = removeAll a (live_tasks s) \<and>
    finished (lock_state s' a) \<and> allocated s' = allocated s \<and>
    (\<forall>b. pending s' b = pending s b) \<and> (\<forall>b. b \<noteq> a \<longrightarrow> finished (lock_state s' b) = finished (lock_state s b))"
proof -
  obtain s1 r k where s1: "silent a s s1" and g: "log_grows (finish env a r k s1) s'"
    using c by (auto simp: ends_def)
  have f1: "frame a s s1" using s1 by (simp add: silent_def)
  have o1: "owed L s1" using frame_owed [OF f1] L by blast
  then obtain ch where ch: "response_sender (heap s1 a) = Some ch" "\<not> finished (lock_state s1 a)"
    using L(2) by (auto simp: owed_def)
  obtain es where es: "list_all (notify_event a) es" and fin: "finish env a r k s1 =
      s1\<lparr>live_tasks := removeAll a (live_tasks s1),
        heap := (heap s1)(a := (heap s1 a)\<lparr>tstate := final_state k (lock_state s1 a),
                                       response_sender := None\<rparr>),
        in_flight := in_flight s1 - 1,
        log := Responded ch r # es @ log s1\<rparr>"
    using finish_unfinished [OF ch(2,1)] by blast
  define s2 where "s2 = finish env a r k s1"
  have ne: "list_all (\<lambda>e. \<not> channel_event e) es" using es by (rule list.pred_mono_strong) simp
  have w: "sum_list (map (wake b) es) = 0" for b using es by (induction es) auto
  have p2: "pending s2 b = pending s1 b" for b
    using w by (simp add: s2_def fin pending_def)
  have st2: "lock_state s2 b = (if b = a then final_state k (lock_state s1 a) else lock_state s1 b)" for b
    by (simp add: s2_def fin lock_state_def)
  have "channels_ok (set L - {a}) s2"
    by (rule channels_settle [of _ s1 _ ch])
      (use o1 L ch ne in \<open>auto simp: s2_def fin owed_def resolutions_def filter_no_channel\<close>)
  moreover have "length L = Suc (length (removeAll a L))"
    using o1 L(2) by (simp add: owed_def distinct_remove1_removeAll [symmetric] length_remove1)
      (metis length_pos_if_in_set Suc_pred)
  ultimately have o2: "owed (removeAll a L) s2"
    using o1 by (auto simp: owed_def s2_def fin distinct_removeAll lock_state_def context_ok_def)
  have f2: "silent a s2 s'" using log_grows_silent g by (simp add: s2_def)
  then have f2': "frame a s2 s'" by (simp add: silent_def)
  show ?thesis
    using frame_owed [OF f2' o2] frame_globals [OF f1] frame_globals [OF f2'] frame_finished [OF f1]
      frame_finished [OF f2'] s1 f2 p2 st2
    by (auto simp: silent_def) (auto simp: s2_def fin)
qed

section \<open>Turns\<close>

lemma turn_started_owed: "owed L (emit (TurnStarted a) s) = owed L s"
  by (simp add: owed_def channels_ok_def senders_def resolutions_def)

lemma loop_inv_live:
  assumes "loop_inv s" "a \<in> set (live_tasks s)"
  shows "unsettled (lock_state s a)" "context_ok (lock_state s a)" "pending s a = 1"
    "a \<in> allocated s" "response_sender (heap s a) \<noteq> None"
  using assms unfolding loop_inv_def owed_def wakes_ok_def by blast+

lemma call_task_inv:
  assumes inv: "loop_inv s" and p: "0 < pending s a"
  shows "loop_inv (call_task env a fut s)"
proof (cases "finished (lock_state s a)")
  case True
  then have "call_task env a fut s = emit (TurnStarted a) s" by (simp add: call_task_def Let_def)
  moreover from True inv have "a \<notin> set (live_tasks s)"
    using loop_inv_live unsettled_unfinished by blast
  ultimately show ?thesis
    using inv p by (auto simp: loop_inv_def turn_started_owed wakes_ok_def)
next
  case False
  let ?s0 = "emit (TurnStarted a) s" and ?s' = "call_task env a fut s"
  have live: "a \<in> set (live_tasks s)" using False inv p by (auto simp: loop_inv_def wakes_ok_def)
  then have "context_ok (lock_state s a)" using inv by (auto simp: loop_inv_def owed_def)
  then have t: "turn_ok env a ?s0 ?s'"
    using False by (intro call_task_turn) (simp_all add: context_ok_def)
  have o0: "owed (live_tasks s) ?s0" using inv by (simp add: turn_started_owed loop_inv_def)
  have w: "wakes_ok (live_tasks s) s" using inv by (simp add: loop_inv_def)
  from t consider "yields a ?s0 ?s'" | "completes env a ?s0 ?s'" unfolding turn_ok_def by blast
  then show ?thesis
  proof cases
    assume y: "yields a ?s0 ?s'"
    then have f: "frame a ?s0 ?s'" by (simp add: yields_def)
    have "pending ?s' b = pending s b" for b using y by (simp add: yields_def)
    then show ?thesis
      using frame_owed [OF f o0] frame_globals [OF f] frame_finished [OF f] w
      by (simp add: loop_inv_def wakes_ok_def)
  next
    assume c: "completes env a ?s0 ?s'"
    have "pending ?s0 a = 0" using w live by (simp add: wakes_ok_def)
    then show ?thesis
      using ends_settles [OF completes_ends [OF c] o0 live] w by (auto simp: loop_inv_def wakes_ok_def)
  qed
qed

section \<open>Scheduling, cancelling and stopping\<close>

lemma emit_silent_inv: "\<not> channel_event e \<Longrightarrow> (\<And>b. wake b e = 0) \<Longrightarrow> loop_inv s \<Longrightarrow> loop_inv (emit e s)"
  by (rule silent_loop_inv [OF silent_emit [where a = 0]])

lemma new_loop_inv: "loop_inv (new_loop l)"
  by (simp add: loop_inv_def owed_def wakes_ok_def new_loop_def channels_ok_def senders_def
      resolutions_def pending_def)

lemma loop_start_inv: "loop_start senv name = Inr s \<Longrightarrow> loop_inv s"
  by (auto simp: loop_start_def new_loop_inv split: option.splits sum.splits)

lemma call_soon_threadsafe_inv:
  assumes "\<And>a. t \<noteq> TStep a" "loop_inv s"
  shows "loop_inv (snd (call_soon_threadsafe env t s))"
proof -
  have "wake b (ScheduledThreadsafe t ok) = 0" for b ok using assms(1) by (cases t) auto
  then show ?thesis using assms(2) by (simp add: call_soon_threadsafe_def Let_def emit_silent_inv)
qed

lemma drop_request_inv: "loop_inv s \<Longrightarrow> loop_inv (drop_request env r s)"
  by (auto simp: drop_request_def call_soon_threadsafe_inv split: option.split)

lemma schedule_cancels_inv: "loop_inv s \<Longrightarrow> loop_inv (schedule_cancels env as s)"
  by (induction as arbitrary: s) (simp_all add: call_soon_threadsafe_inv)

lemma cancel_in_flight_inv: "loop_inv s \<Longrightarrow> loop_inv (cancel_in_flight env s)"
  by (simp add: cancel_in_flight_def schedule_cancels_inv)

lemma quiet_inv: "quiet s s' \<Longrightarrow> loop_inv s \<Longrightarrow> loop_inv s'"
  by (rule silent_loop_inv [OF quiet_silent [where a = 0]])

lemma deallocate_inv:
  assumes inv: "loop_inv s" and a: "a \<in> allocated s" "a \<notin> set (live_tasks s)" "pending s a = 0"
  shows "loop_inv (deallocate a s)"
proof -
  have n: "response_sender (heap s a) = None" using inv a by (auto simp: loop_inv_def owed_def)
  then have d: "deallocate a s = s\<lparr>allocated := allocated s - {a}\<rparr>"
    by (simp add: deallocate_def channel_drop_def)
  have w: "wakes_ok (live_tasks s) (deallocate a s)"
    using inv a by (auto simp: loop_inv_def wakes_ok_def d pending_def lock_state_def)
  have "owed (live_tasks s) (deallocate a s)"
    using inv a n by (auto simp: loop_inv_def owed_def d channels_ok_def senders_def
        resolutions_def lock_state_def)
  with w show ?thesis by (simp add: loop_inv_def d)
qed

lemma channels_resolved:
  assumes "channels_ok A s" "next_channel s' = Suc (next_channel s)"
    and "\<And>b. b \<in> A \<Longrightarrow> response_sender (heap s' b) = response_sender (heap s b)"
    and "\<And>c. resolutions c s' = (if c = next_channel s then 1 else 0) + resolutions c s"
  shows "channels_ok A s'"
proof -
  have e: "senders A s' = senders A s" unfolding senders_def using assms(3) by (intro image_cong) auto
  have "inj_on (\<lambda>b. response_sender (heap s' b)) A"
    using assms(1,3) by (simp add: channels_ok_def inj_on_def)
  then show ?thesis using assms(1,2,4) by (auto simp: channels_ok_def e less_Suc_eq)
qed

lemma channels_opened:
  assumes "channels_ok A s" "next_channel s' = Suc (next_channel s)" "a \<notin> A"
    and "response_sender (heap s' a) = Some (next_channel s)"
    and "\<And>b. b \<in> A \<Longrightarrow> response_sender (heap s' b) = response_sender (heap s b)"
    and "\<And>c. resolutions c s' = resolutions c s"
  shows "channels_ok (insert a A) s'"
proof -
  have im: "senders A s' = senders A s" unfolding senders_def using assms(5) by (intro image_cong) auto
  have e: "senders (insert a A) s' = insert (Some (next_channel s)) (senders A s)"
    using im by (simp add: senders_def assms(4))
  have f: "Some (next_channel s) \<notin> senders A s" using assms(1) by (auto simp: channels_ok_def)
  have "inj_on (\<lambda>b. response_sender (heap s' b)) A"
    using assms(1,5) by (simp add: channels_ok_def inj_on_def)
  then have "inj_on (\<lambda>b. response_sender (heap s' b)) (insert a A)"
    using f [folded im] assms(3,4) unfolding senders_def inj_on_insert by simp
  then show ?thesis using assms(1,2,6) f by (auto simp: channels_ok_def e less_Suc_eq)
qed

text \<open>The new task is at an address that no live object has.\<close>

definition fresh_address :: "py_env \<Rightarrow> event_loop \<Rightarrow> bool" where
  "fresh_address env s \<longleftrightarrow> (case e_allocate env (log s) of Inl _ \<Rightarrow> True | Inr a \<Rightarrow> a \<notin> allocated s)"

definition opened :: "pyobj \<Rightarrow> pyobj \<Rightarrow> addr \<Rightarrow> bool \<Rightarrow> event_loop \<Rightarrow> event_loop" where
  "opened h kwargs a ok s =
     s\<lparr>next_channel := next_channel s + 1, in_flight := in_flight s + 1,
       heap := (heap s)(a := new_task h kwargs (next_channel s)), allocated := insert a (allocated s),
       live_tasks := a # removeAll a (live_tasks s),
       log := ScheduledThreadsafe (TStep a) ok # Allocated True # log s\<rparr>"

lemma opened_owed:
  assumes "loop_inv s" "a \<notin> allocated s"
  shows "owed (a # live_tasks s) (opened h kwargs a ok s)"
proof -
  have a: "a \<notin> set (live_tasks s)" using assms by (auto simp: loop_inv_def owed_def)
  have ns: "b \<noteq> a" if "b \<in> set (live_tasks s)" for b using a that by blast
  have "channels_ok (insert a (set (live_tasks s))) (opened h kwargs a ok s)"
    by (rule channels_opened [of _ s])
      (use assms a ns in \<open>auto simp: opened_def loop_inv_def owed_def new_task_def resolutions_def\<close>)
  then show ?thesis
    using assms a by (auto simp: loop_inv_def owed_def opened_def lock_state_def new_task_def)
qed

lemma schedule_cases:
  "schedule env h kwargs s =
     (case e_allocate env (log s) of
        Inl e \<Rightarrow>
          (failed (next_channel s),
           s\<lparr>next_channel := next_channel s + 1,
             log := Printed e # SenderDropped (next_channel s) # Allocated False # log s\<rparr>)
      | Inr a \<Rightarrow>
          (case e_call_soon_threadsafe env (Allocated True # log s) (TStep a) of
             None \<Rightarrow> (\<lparr>response_receiver = next_channel s, request_task = Some a\<rparr>, opened h kwargs a True s)
           | Some e \<Rightarrow>
               (failed (next_channel s),
                (opened h kwargs a False s)
                  \<lparr>live_tasks := removeAll a (live_tasks s), in_flight := in_flight s,
                   heap := (heap s)(a := (new_task h kwargs (next_channel s))\<lparr>response_sender := None\<rparr>),
                   log := Responded (next_channel s) internal_error # Printed e #
                     ScheduledThreadsafe (TStep a) False # Allocated True # log s\<rparr>)))"
  by (simp add: schedule_def Let_def allocate_def call_soon_threadsafe_def opened_def emit_def is_ok_def
      channel_send_def new_task_def split: sum.split option.split)

lemma schedule_inv:
  assumes inv: "loop_inv s" and fresh: "fresh_address env s"
  shows "loop_inv (snd (schedule env h kwargs s))"
proof (cases "e_allocate env (log s)")
  case (Inl e)
  let ?s' = "snd (schedule env h kwargs s)"
  have s': "?s' = s\<lparr>next_channel := next_channel s + 1,
             log := Printed e # SenderDropped (next_channel s) # Allocated False # log s\<rparr>"
    by (simp add: schedule_cases Inl)
  have "channels_ok (set (live_tasks s)) ?s'"
    by (rule channels_resolved [of _ s])
      (use inv in \<open>auto simp: s' loop_inv_def owed_def resolutions_def\<close>)
  then show ?thesis
    using inv by (auto simp: s' loop_inv_def owed_def wakes_ok_def pending_def lock_state_def)
next
  case (Inr a)
  have new: "a \<notin> allocated s" using fresh Inr by (simp add: fresh_address_def)
  have a: "a \<notin> set (live_tasks s)" "pending s a = 0"
    using inv new by (auto simp: loop_inv_def owed_def wakes_ok_def order_le_less)
  show ?thesis
  proof (cases "e_call_soon_threadsafe env (Allocated True # log s) (TStep a)")
    case None
    then have s': "snd (schedule env h kwargs s) = opened h kwargs a True s"
      by (simp add: schedule_cases Inr)
    have p: "pending (opened h kwargs a True s) b = pending s b + (if b = a then 1 else 0)" for b
      by (simp add: opened_def pending_def)
    have "wakes_ok (a # live_tasks s) (opened h kwargs a True s)"
      using inv a new by (auto simp: wakes_ok_def p loop_inv_def)
        (auto simp: opened_def lock_state_def)
    then show ?thesis
      using opened_owed [OF inv new] a unfolding s' by (simp add: loop_inv_def) (simp add: opened_def)
  next
    case (Some e)
    let ?s' = "snd (schedule env h kwargs s)"
    have s': "?s' = (opened h kwargs a False s)
                  \<lparr>live_tasks := removeAll a (live_tasks s), in_flight := in_flight s,
                   heap := (heap s)(a := (new_task h kwargs (next_channel s))\<lparr>response_sender := None\<rparr>),
                   log := Responded (next_channel s) internal_error # Printed e #
                     ScheduledThreadsafe (TStep a) False # Allocated True # log s\<rparr>"
      by (simp add: schedule_cases Inr Some)
    have ns: "b \<noteq> a" if "b \<in> set (live_tasks s)" for b using a that by blast
    have "channels_ok (set (live_tasks s)) ?s'"
      by (rule channels_resolved [of _ s])
        (use inv ns in \<open>auto simp: s' opened_def loop_inv_def owed_def resolutions_def\<close>)
    moreover have "wakes_ok (live_tasks s) ?s'"
      using inv a new by (auto simp: s' opened_def wakes_ok_def pending_def loop_inv_def lock_state_def)
    moreover have "lock_state ?s' b = (if b = a then default_task_state else lock_state s b)"
      "response_sender (heap ?s' b) = (if b = a then None else response_sender (heap s b))"
      "allocated ?s' = insert a (allocated s)" "in_flight ?s' = in_flight s" "live_tasks ?s' = live_tasks s" for b
      using a by (simp_all add: s' opened_def lock_state_def new_task_def)
    ultimately show ?thesis using inv a new unfolding loop_inv_def owed_def by auto
  qed
qed

text \<open>Draining the registry disposes of every task in it and leaves nothing owed.\<close>

lemma dispose_all_settles:
  "owed L s \<Longrightarrow> wakes_ok L s \<Longrightarrow> live_tasks s = [] \<Longrightarrow>
     owed [] (dispose_all env L s) \<and> wakes_ok [] (dispose_all env L s) \<and>
     live_tasks (dispose_all env L s) = []"
proof (induction L arbitrary: s)
  case (Cons a L)
  have c: "ends env a s (dispose env a s)"
    unfolding dispose_def by (rule abort_ends) simp
  have "removeAll a (a # L) = L" using Cons.prems(1) by (simp add: owed_def)
  with ends_settles [OF c Cons.prems(1)] Cons.prems(2,3)
  have "owed L (dispose env a s) \<and> wakes_ok L (dispose env a s) \<and> live_tasks (dispose env a s) = []"
    by (auto simp: wakes_ok_def)
  with Cons.IH show ?case by simp
qed simp

lemma drain_settles:
  assumes "loop_inv s"
  shows "loop_inv (drain_registry env s)" "live_tasks (drain_registry env s) = []"
proof -
  let ?s = "s\<lparr>live_tasks := []\<rparr>"
  have "owed (live_tasks s) ?s \<and> wakes_ok (live_tasks s) ?s"
    using assms by (auto simp: loop_inv_def owed_def wakes_ok_def channels_ok_def senders_def
        resolutions_def lock_state_def pending_def)
  then show "loop_inv (drain_registry env s)" "live_tasks (drain_registry env s) = []"
    using dispose_all_settles [of "live_tasks s" ?s env] by (simp_all add: drain_registry_def loop_inv_def)
qed

lemma thread_running_inv: "loop_inv s \<Longrightarrow> loop_inv (s\<lparr>thread_running := b\<rparr>)"
  by (auto simp: loop_inv_def owed_def wakes_ok_def channels_ok_def senders_def resolutions_def
      lock_state_def pending_def)

lemma request_stop_inv: "loop_inv s \<Longrightarrow> loop_inv (request_stop env s)"
  using call_soon_threadsafe_inv [of TStop "s\<lparr>thread_running := False\<rparr>" env] thread_running_inv [of s False]
  by (auto simp: request_stop_def Let_def quiet_inv [OF quiet_print] split: prod.split)

end
