(* ===== verification/LoopSteps.thy ===== *)
theory LoopSteps
  imports LoopInvariant
begin

text \<open>
  The life of an event loop as a step relation: every interleaving of requests being scheduled and
  dropped, turns, Python code that calls task methods, cancellation sweeps, deallocation, and a stop.
  A turn of a task is possible as long as one was asked for and not yet taken.
\<close>

section \<open>The step relation\<close>

inductive loop_step :: "py_env \<Rightarrow> event_loop \<Rightarrow> event_loop \<Rightarrow> bool" for env where
  Turn: "0 < pending s a \<Longrightarrow> loop_step env s (call_task env a fut s)"
| CancelCallback: "a \<in> allocated s \<Longrightarrow> loop_step env s (snd (cancel env a None s))"
| PythonCode: "loop_step env s (snd (run_script (k :: unit script) env s))"
| Schedule: "fresh_address env s \<Longrightarrow> loop_step env s (snd (schedule env h kwargs s))"
| DropRequest: "loop_step env s (drop_request env r s)"
| CancelInFlight: "loop_step env s (cancel_in_flight env s)"
| Deallocate: "a \<in> allocated s \<Longrightarrow> a \<notin> set (live_tasks s) \<Longrightarrow> pending s a = 0 \<Longrightarrow>
    loop_step env s (deallocate a s)"
| RequestStop: "thread_running s \<Longrightarrow> loop_step env s (request_stop env s)"
| DrainRegistry: "\<not> thread_running s \<Longrightarrow> loop_step env s (drain_registry env s)"

inductive_cases loop_stepE: "loop_step env s s'"

text \<open>Invariants of a transition system.\<close>

locale transition_invariant =
  fixes step :: "'s \<Rightarrow> 's \<Rightarrow> bool" and inv :: "'s \<Rightarrow> bool"
  assumes step_inv: "inv s \<Longrightarrow> step s s' \<Longrightarrow> inv s'"
begin

lemma steps_inv: "step\<^sup>*\<^sup>* s s' \<Longrightarrow> inv s \<Longrightarrow> inv s'"
  by (induction rule: rtranclp_induct) (auto intro: step_inv)

end

interpretation loop: transition_invariant "loop_step env" loop_inv
proof
  fix s s'
  assume "loop_inv s" "loop_step env s s'"
  from this(2,1) show "loop_inv s'"
  proof cases
    case (CancelCallback a)
    with \<open>loop_inv s\<close> show ?thesis using quiet_inv [OF op_cancel.op_quiet] by simp
  next
    case (PythonCode k)
    with \<open>loop_inv s\<close> show ?thesis using quiet_inv [OF script.op_quiet] by simp
  qed (simp_all add: call_task_inv schedule_inv drop_request_inv cancel_in_flight_inv deallocate_inv
      request_stop_inv drain_settles)
qed

definition reachable :: "py_env \<Rightarrow> event_loop \<Rightarrow> bool" where
  "reachable env s \<longleftrightarrow> (\<exists>l. (loop_step env)\<^sup>*\<^sup>* (new_loop l) s)"

lemma reachable_inv: "reachable env s \<Longrightarrow> loop_inv s"
  unfolding reachable_def using loop.steps_inv new_loop_inv by blast

lemma reachable_steps: "reachable env s \<Longrightarrow> (loop_step env)\<^sup>*\<^sup>* s s' \<Longrightarrow> reachable env s'"
  unfolding reachable_def by (meson rtranclp_trans)

end
