(* ===== verification/History.thy ===== *)
theory History
  imports LoopSteps
begin

text \<open>
  The history of a loop.  Its log only grows and its channels are only ever opened, so what a client
  has received stays received.  With the accounting of \<open>LoopInvariant\<close> this gives the promises of the
  scheduler over every interleaving: an exact gauge, one turn coming for every live task, one outcome
  for every request, and a stop that leaves nothing behind.
\<close>

section \<open>The log only grows\<close>

definition later :: "event_loop \<Rightarrow> event_loop \<Rightarrow> bool" where
  "later s s' \<longleftrightarrow> (\<exists>es. log s' = es @ log s) \<and> next_channel s \<le> next_channel s' \<and>
     (thread_running s' \<longrightarrow> thread_running s)"

lemma later_refl [simp]: "later s s"
  by (simp add: later_def)

lemma later_trans: "later s s' \<Longrightarrow> later s' s'' \<Longrightarrow> later s s''"
  unfolding later_def by (metis append.assoc order_trans)

lemma later_emit [simp]: "later s (emit e s)"
  by (simp add: later_def)

lemma later_print [simp]: "later s (print_error e s)"
  by (simp add: print_error_def split: option.split)

lemma later_frame: "frame a s s' \<Longrightarrow> later s s'"
  using frame_globals [of a s s'] by (auto simp: later_def frame_def extends_log_def)

lemma later_quiet: "quiet s s' \<Longrightarrow> later s s'"
  using later_frame quiet_silent silent_def by blast

lemma later_channel_send: "later s (channel_send a r s)"
  by (simp add: channel_send_def later_def split: option.split)

lemma later_finish: "later s (finish env a r c s)"
proof -
  have u: "\<exists>es. unregister env a t = t\<lparr>log := es @ log t\<rparr>" for t using unregister_log by blast
  have f: "\<exists>es. fire_done_callbacks env a cbs t = t\<lparr>log := es @ log t\<rparr>" for cbs t
    using fire_done_callbacks_log by blast
  have "later t (unregister env a t)" "later t (fire_done_callbacks env a cbs t)" for t cbs
    using u [of t] f [of cbs t] by (auto simp: later_def)
  note lu = this
  show ?thesis
    unfolding finish_def Let_def
    using later_channel_send lu later_trans
    by (auto simp: later_def [of s "set_state _ _ _\<lparr>live_tasks := _\<rparr>"] intro!: later_trans [OF _ later_channel_send]
        later_trans [OF _ lu(2)] later_trans [OF _ lu(1)])
qed

lemma later_ends: "ends env a s s' \<Longrightarrow> later s s'"
  unfolding ends_def
  using later_finish later_trans later_frame log_grows_silent silent_def by meson

lemma later_turn: "turn_ok env a s s' \<Longrightarrow> later s s'"
  unfolding turn_ok_def yields_def using later_frame later_ends completes_ends by blast

lemma later_call_task:
  assumes "loop_inv s" "0 < pending s a"
  shows "later s (call_task env a fut s)"
proof (cases "finished (lock_state s a)")
  case True
  then show ?thesis by (simp add: call_task_def Let_def)
next
  case False
  then have "context_ok (lock_state s a)"
    using assms loop_inv_live(2) by (auto simp: loop_inv_def wakes_ok_def)
  then have "turn_ok env a (emit (TurnStarted a) s) (call_task env a fut s)"
    using False by (intro call_task_turn) (simp_all add: context_ok_def)
  then show ?thesis using later_turn later_emit later_trans by blast
qed

lemma later_call_soon [simp]: "later s (snd (call_soon_threadsafe env t s))"
  by (simp add: call_soon_threadsafe_def Let_def)

lemma later_schedule_cancels: "later s (schedule_cancels env as s)"
  by (induction as arbitrary: s) (auto intro: later_trans [OF later_call_soon])

lemma later_dispose_all: "later s (dispose_all env as s)"
proof (induction as arbitrary: s)
  case (Cons a as)
  have "later s (dispose env a s)"
    unfolding dispose_def by (rule later_ends [OF abort_ends]) simp
  then show ?case using Cons.IH later_trans by auto
qed simp

lemma later_step:
  assumes "loop_inv s" "loop_step env s s'"
  shows "later s s'"
  using assms(2,1)
proof cases
  case (Turn a fut)
  then show ?thesis using later_call_task assms(1) by simp
next
  case (CancelCallback a)
  then show ?thesis using later_quiet [OF op_cancel.op_quiet] by simp
next
  case (PythonCode k)
  then show ?thesis using later_quiet [OF script.op_quiet] by simp
next
  case (Schedule h kwargs)
  then show ?thesis
    by (auto simp: schedule_cases later_def opened_def split: sum.split option.split)
next
  case (DropRequest r)
  then show ?thesis by (simp add: drop_request_def split: option.split)
next
  case CancelInFlight
  then show ?thesis by (simp add: cancel_in_flight_def later_schedule_cancels)
next
  case (Deallocate a)
  then show ?thesis by (simp add: deallocate_def channel_drop_def later_def split: option.split)
next
  case RequestStop
  then show ?thesis
    by (auto simp: request_stop_def Let_def call_soon_threadsafe_def print_error_def later_def split: option.split)
next
  case DrainRegistry
  have "later s (s\<lparr>live_tasks := []\<rparr>)" by (simp add: later_def)
  with DrainRegistry show ?thesis using later_dispose_all later_trans by (auto simp: drain_registry_def)
qed

interpretation history: transition_invariant "loop_step env" "\<lambda>s. loop_inv s \<and> later s0 s"
  by unfold_locales (use loop.step_inv later_step later_trans in blast)

lemma steps_later: "loop_inv s \<Longrightarrow> (loop_step env)\<^sup>*\<^sup>* s s' \<Longrightarrow> later s s'"
  using history.steps_inv [of env s s' s] by simp

lemma steps_loop_inv: "loop_inv s \<Longrightarrow> (loop_step env)\<^sup>*\<^sup>* s s' \<Longrightarrow> loop_inv s'"
  using loop.steps_inv by blast

section \<open>Outcomes\<close>

lemma channel_outcome_step: "\<not> resolves ch e \<Longrightarrow> channel_outcome ch (e # l) = channel_outcome ch l"
  by (cases e) auto

lemma channel_outcome_append:
  "filter (resolves ch) es = [] \<Longrightarrow> channel_outcome ch (es @ l) = channel_outcome ch l"
  by (induction es) (auto simp: channel_outcome_step simp del: channel_outcome.simps(2) split: if_splits)

lemma channel_outcome_resolutions:
  "channel_outcome ch l = None \<longleftrightarrow> filter (resolves ch) l = []"
  by (induction l) (auto split: event.splits)

lemma outcome_iff_resolved: "channel_outcome ch (log s) \<noteq> None \<longleftrightarrow> resolutions ch s \<noteq> 0"
  by (simp add: channel_outcome_resolutions resolutions_def)

lemma inv_resolved:
  assumes "loop_inv s" "ch < next_channel s"
  shows "resolutions ch s = 1 \<and> \<not> (\<exists>a \<in> set (live_tasks s). response_sender (heap s a) = Some ch) \<or>
    resolutions ch s = 0 \<and> (\<exists>a \<in> set (live_tasks s). response_sender (heap s a) = Some ch)"
proof -
  have "Some ch \<in> senders (set (live_tasks s)) s \<longleftrightarrow>
      (\<exists>a \<in> set (live_tasks s). response_sender (heap s a) = Some ch)"
    unfolding senders_def by (auto simp: image_iff eq_commute)
  moreover have "resolutions ch s = (if Some ch \<notin> senders (set (live_tasks s)) s then 1 else 0)"
    using assms by (simp add: loop_inv_def owed_def channels_ok_def)
  ultimately show ?thesis by simp
qed

text \<open>In a state that keeps the accounts, a channel that was resolved is not resolved again.\<close>

lemma outcome_stays:
  assumes "loop_inv s'" "log s' = es @ log s" "channel_outcome ch (log s) = Some x"
  shows "channel_outcome ch (log s') = Some x"
proof -
  have "resolutions ch s' \<le> 1" using assms(1) by (simp add: loop_inv_def owed_def channels_ok_def)
  moreover have "filter (resolves ch) (log s) \<noteq> []" using channel_outcome_resolutions [of ch "log s"] assms(3) by simp
  then have "1 \<le> length (filter (resolves ch) (log s))" by (simp add: Suc_le_eq)
  moreover have "resolutions ch s' = length (filter (resolves ch) es) + length (filter (resolves ch) (log s))"
    by (simp add: resolutions_def assms(2))
  ultimately have "length (filter (resolves ch) es) = 0" by linarith
  then show ?thesis using channel_outcome_append assms(2,3) by simp
qed

lemma inv_registry:
  "loop_inv s \<Longrightarrow> set (live_tasks s) = {a \<in> allocated s. response_sender (heap s a) \<noteq> None}"
  by (auto simp: loop_inv_def owed_def)

lemma schedule_channel:
  "response_receiver (fst (schedule env h kwargs s)) = next_channel s"
  "next_channel (snd (schedule env h kwargs s)) = next_channel s + 1"
  by (auto simp: schedule_cases failed_def opened_def split: sum.split option.split)

section \<open>A concrete Python side\<close>

text \<open>
  An environment in which every call succeeds and the handler returns 7 on its first step, to run
  the definitions on.
\<close>

definition sample_env :: py_env where
  "sample_env =
     \<lparr>e_call_handler = (\<lambda>_ _ _. Return (Inr (PyRef 10 None))), e_copy_context = (\<lambda>_. Inr (PyRef 11 None)),
      e_register = (\<lambda>_ _. None), e_unregister = (\<lambda>_ _. None), e_enter_task = (\<lambda>_ _. None),
      e_leave_task = (\<lambda>_ _. None), e_context_enter = (\<lambda>_ _. None), e_context_exit = (\<lambda>_ _. None),
      e_send = (\<lambda>_ _. Return (GenReturn (PyInt 7))), e_throw = (\<lambda>_ _ e. Return (Inl e)),
      e_stop_value = (\<lambda>_ _. Inr PyNone), e_close = (\<lambda>_ _. Return None), e_blocking = (\<lambda>_ _. Inr (Inr True)),
      e_get_loop = (\<lambda>_ _. Inr (PyRef 0 None)), e_clear_blocking = (\<lambda>_ _. None),
      e_add_done_callback = (\<lambda>_ _ _. None), e_future_result = (\<lambda>_ _. Inr PyNone),
      e_future_cancel = (\<lambda>_ _ _. Inr (Inr True)), e_call_soon = (\<lambda>_ _. None), e_set_context = (\<lambda>_ _. None),
      e_call_soon_callback = (\<lambda>_ _ _ _. None), e_call_soon_threadsafe = (\<lambda>_ _. None),
      e_has_stop = (\<lambda>_. True), e_allocate = (\<lambda>l. Inr (length l)), e_eq = (\<lambda>x y. Inr (x = y)),
      e_str = (\<lambda>x. Inr x), e_join_panicked = (\<lambda>_. False)\<rparr>"

definition sample_loop :: event_loop where
  "sample_loop = snd (schedule sample_env (PyRef 1 None) (PyDict []) (new_loop (PyRef 0 None)))"

lemma sample_loop_reachable: "reachable sample_env sample_loop"
proof -
  have "fresh_address sample_env (new_loop (PyRef 0 None))" by (simp add: fresh_address_def new_loop_def sample_env_def)
  then have "loop_step sample_env (new_loop (PyRef 0 None)) sample_loop"
    unfolding sample_loop_def by (rule loop_step.Schedule)
  then show ?thesis unfolding reachable_def by blast
qed

lemma sample_loop_eval:
  "sample_loop = opened (PyRef 1 None) (PyDict []) 0 True (new_loop (PyRef 0 None))"
  by (simp add: sample_loop_def schedule_cases) (simp add: sample_env_def new_loop_def)

lemma sample_loop_fields [simp]:
  "live_tasks sample_loop = [0]" "next_channel sample_loop = 1" "allocated sample_loop = {0}"
  "response_sender (heap sample_loop 0) = Some 0" "in_flight sample_loop = 1"
  "log sample_loop = [ScheduledThreadsafe (TStep 0) True, Allocated True]"
  "thread_running sample_loop"
  by (simp_all add: sample_loop_eval opened_def new_loop_def new_task_def)

text \<open>The same loop after its only task took its turn.\<close>

definition sample_done :: event_loop where
  "sample_done = call_task sample_env 0 None sample_loop"

lemma sample_done_reachable: "reachable sample_env sample_done"
proof -
  have "loop_step sample_env sample_loop sample_done"
    unfolding sample_done_def by (rule loop_step.Turn) (simp add: pending_def)
  then show ?thesis using reachable_steps [OF sample_loop_reachable] by blast
qed

section \<open>Properties\<close>

text \<open>
  C4.  In every reachable state of an event loop, under every interleaving of scheduling, turns,
  cancellation, client disconnects and deallocation, the registry of live tasks holds each task
  whose response is still owed exactly once and nothing else, and the in-flight gauge is their
  number (modulo its width).\<close>

theorem gauge_exact:
  assumes "reachable env s"
  shows "distinct (live_tasks s) \<and>
    set (live_tasks s) = {a \<in> allocated s. response_sender (heap s a) \<noteq> None} \<and>
    in_flight_count s = of_nat (card {a \<in> allocated s. response_sender (heap s a) \<noteq> None})"
proof -
  have inv: "loop_inv s" by (rule reachable_inv [OF assms])
  then have "distinct (live_tasks s)" "in_flight s = of_nat (length (live_tasks s))"
    by (simp_all add: loop_inv_def owed_def)
  then show ?thesis
    using inv_registry [OF inv] distinct_card [of "live_tasks s"] by (simp add: in_flight_count_def)
qed

theorem gauge_exact_witness:
  "reachable sample_env sample_loop \<and> in_flight_count sample_loop = 1 \<and>
   card {a \<in> allocated sample_loop. response_sender (heap sample_loop a) \<noteq> None} = 1"
proof -
  have "{a \<in> allocated sample_loop. response_sender (heap sample_loop a) \<noteq> None} = {0}" by auto
  then show ?thesis using gauge_exact [OF sample_loop_reachable] sample_loop_reachable by simp
qed

text \<open>
  C3.  No wake-up is lost or doubled: in every reachable state a live task has exactly one turn
  coming (queued on the loop or held by the future it awaits), it has no recorded outcome, and a
  turn that is coming belongs to a live or a finished task.\<close>

theorem one_turn_coming:
  assumes "reachable env s"
  shows "(\<forall>a. a \<in> set (live_tasks s) \<longrightarrow> pending s a = 1 \<and> \<not> task_done a s) \<and>
    (\<forall>a. pending s a \<noteq> 0 \<longrightarrow> pending s a > 0 \<and> (a \<in> set (live_tasks s) \<or> task_done a s))"
proof -
  have inv: "loop_inv s" by (rule reachable_inv [OF assms])
  have "pending s a > 0" if "pending s a \<noteq> 0" for a
    using inv that by (auto simp: loop_inv_def wakes_ok_def order_less_le)
  then show ?thesis
    using inv loop_inv_live(1,3) [OF inv] unsettled_unfinished
    unfolding loop_inv_def wakes_ok_def task_done_def by blast
qed

theorem one_turn_coming_witness:
  "reachable sample_env sample_loop \<and> 0 \<in> set (live_tasks sample_loop) \<and> pending sample_loop 0 = 1"
  using one_turn_coming [OF sample_loop_reachable] sample_loop_reachable by simp

text \<open>
  C1.  Every request gets at most one outcome, and it has one exactly when no live task holds its
  channel any more: responses are neither sent twice nor forgotten.\<close>

theorem one_outcome_per_request:
  assumes "reachable env s" "ch < next_channel s"
  shows "resolutions ch s \<le> 1 \<and>
    (resolutions ch s = 1 \<longleftrightarrow> \<not> (\<exists>a. a \<in> set (live_tasks s) \<and> response_sender (heap s a) = Some ch)) \<and>
    (channel_outcome ch (log s) \<noteq> None \<longleftrightarrow> resolutions ch s = 1)"
  using inv_resolved [OF reachable_inv [OF assms(1)] assms(2)] outcome_iff_resolved [of ch s] by auto

theorem one_outcome_per_request_witness:
  "reachable sample_env sample_loop \<and> 0 < next_channel sample_loop \<and> resolutions 0 sample_loop = 0 \<and>
   channel_outcome 0 (log sample_loop) = None"
proof -
  have "resolutions 0 sample_loop = 0" by (simp add: resolutions_def)
  then show ?thesis
    using one_outcome_per_request [OF sample_loop_reachable, of 0] sample_loop_reachable by simp
qed

text \<open>
  C5.  A dispatched request never hangs unowned.  From the moment \<open>schedule\<close> returns, and however
  the loop runs on, either the request has its outcome, or a live task with a turn coming holds its
  channel; this includes the paths where the allocation or the hand-over to the loop failed.\<close>

theorem request_never_abandoned:
  assumes "reachable env s" "fresh_address env s" "schedule env h kwargs s = (req, s1)"
    "(loop_step env)\<^sup>*\<^sup>* s1 s2"
  shows "response req s2 \<noteq> None \<or>
    (\<exists>a. a \<in> set (live_tasks s2) \<and> response_sender (heap s2 a) = Some (response_receiver req) \<and>
         pending s2 a = 1)"
proof -
  let ?ch = "response_receiver req"
  have "loop_inv s1" using schedule_inv [OF reachable_inv [OF assms(1)] assms(2)] assms(3) by (metis snd_conv)
  then have inv: "loop_inv s2" and l: "later s1 s2"
    using steps_later steps_loop_inv assms(4) by blast+
  have "?ch < next_channel s1" using schedule_channel [of env h kwargs s] assms(3) by simp
  then have "?ch < next_channel s2" using l by (simp add: later_def)
  from inv_resolved [OF inv this] show ?thesis
    using outcome_iff_resolved [of ?ch s2] loop_inv_live(3) [OF inv] by (auto simp: response_def)
qed

theorem request_never_abandoned_witness:
  "\<exists>req. schedule sample_env (PyRef 1 None) (PyDict []) (new_loop (PyRef 0 None)) = (req, sample_loop) \<and>
     response req sample_loop = None \<and>
     (\<exists>a. a \<in> set (live_tasks sample_loop) \<and> response_sender (heap sample_loop a) = Some (response_receiver req))"
proof -
  let ?s = "new_loop (PyRef 0 None)"
  have s: "schedule sample_env (PyRef 1 None) (PyDict []) ?s =
      (\<lparr>response_receiver = 0, request_task = Some 0\<rparr>, sample_loop)" (is "_ = (?req, _)")
    unfolding sample_loop_eval by (simp add: schedule_cases sample_env_def) (simp add: new_loop_def)
  have "reachable sample_env ?s" unfolding reachable_def by blast
  moreover have "fresh_address sample_env ?s" by (simp add: fresh_address_def new_loop_def sample_env_def)
  moreover have r: "response ?req sample_loop = None" by (simp add: response_def)
  ultimately have "\<exists>a. a \<in> set (live_tasks sample_loop) \<and>
      response_sender (heap sample_loop a) = Some (response_receiver ?req)"
    using request_never_abandoned [OF _ _ s rtranclp.rtrancl_refl] by blast
  with s r show ?thesis by blast
qed

text \<open>
  C34.  An outcome is final: once a request has its response (or the news that its sender was
  dropped), no later step of the loop sends on its channel again or changes what the client reads.\<close>

theorem response_final:
  assumes "reachable env s" "(loop_step env)\<^sup>*\<^sup>* s s'" "response req s = Some outcome"
  shows "response req s' = Some outcome \<and> resolutions (response_receiver req) s' = 1"
proof -
  have inv: "loop_inv s" by (rule reachable_inv [OF assms(1)])
  have inv': "loop_inv s'" by (rule steps_loop_inv [OF inv assms(2)])
  obtain es where es: "log s' = es @ log s" using steps_later [OF inv assms(2)] by (auto simp: later_def)
  have r: "response req s' = Some outcome" using assms(3) outcome_stays [OF inv' es] by (auto simp: response_def)
  have "resolutions (response_receiver req) s' \<le> 1"
    using inv' by (simp add: loop_inv_def owed_def channels_ok_def)
  moreover have "resolutions (response_receiver req) s' \<noteq> 0"
    using r outcome_iff_resolved [of "response_receiver req" s'] by (auto simp: response_def)
  ultimately show ?thesis using r by linarith
qed

theorem response_final_witness:
  "response \<lparr>response_receiver = 0, request_task = Some 0\<rparr> sample_done =
     Some (Some \<lparr>status = 200, content_type = ''application/json'', body = ''7''\<rparr>,
           \<lparr>response_receiver = 0, request_task = None\<rparr>) \<and>
   response \<lparr>response_receiver = 0, request_task = Some 0\<rparr> (cancel_in_flight sample_env sample_done) =
     Some (Some \<lparr>status = 200, content_type = ''application/json'', body = ''7''\<rparr>,
           \<lparr>response_receiver = 0, request_task = None\<rparr>)"
proof -
  have "response \<lparr>response_receiver = 0, request_task = Some 0\<rparr> sample_done =
     Some (Some \<lparr>status = 200, content_type = ''application/json'', body = ''7''\<rparr>,
           \<lparr>response_receiver = 0, request_task = None\<rparr>)" by code_simp
  moreover have "(loop_step sample_env)\<^sup>*\<^sup>* sample_done (cancel_in_flight sample_env sample_done)"
    using loop_step.CancelInFlight by blast
  ultimately show ?thesis using response_final [OF sample_done_reachable] by blast
qed

text \<open>
  Stopping.  What the loop thread does while the stopping thread waits for it is any number of steps
  of the loop.
\<close>

definition runs_loop :: "py_env \<Rightarrow> (event_loop \<Rightarrow> event_loop) \<Rightarrow> bool" where
  "runs_loop env running \<longleftrightarrow> (\<forall>t. (loop_step env)\<^sup>*\<^sup>* t (running t))"

lemma request_stop_thread: "\<not> thread_running (request_stop env s)"
  by (auto simp: request_stop_def Let_def call_soon_threadsafe_def print_error_def split: option.split)

lemma stop_before_drain:
  assumes "loop_inv s" "runs_loop env running"
  obtains t where "stop env running s = drain_registry env t" "loop_inv t" "\<not> thread_running t"
proof (cases "thread_running s")
  case True
  define t0 where "t0 = running (request_stop env s)"
  have inv: "loop_inv (request_stop env s)" by (rule request_stop_inv [OF assms(1)])
  have r: "(loop_step env)\<^sup>*\<^sup>* (request_stop env s) t0" using assms(2) by (simp add: runs_loop_def t0_def)
  have "\<not> thread_running t0"
    using steps_later [OF inv r] request_stop_thread by (auto simp: later_def)
  moreover have "loop_inv (emit (Joined b) t0)" for b
    by (rule emit_silent_inv [OF _ _ steps_loop_inv [OF inv r]]) simp_all
  moreover have "stop env running s = drain_registry env (emit (Joined (\<not> e_join_panicked env (log t0))) t0)"
    using True by (simp add: stop_def Let_def t0_def)
  ultimately show ?thesis using that by simp
next
  case False
  with that [of s] assms(1) show ?thesis by (simp add: stop_def)
qed

lemma drain_thread: "loop_inv s \<Longrightarrow> \<not> thread_running s \<Longrightarrow> \<not> thread_running (drain_registry env s)"
  using later_step [OF _ loop_step.DrainRegistry] by (auto simp: later_def)

lemma stop_inv:
  assumes "loop_inv s" "runs_loop env running"
  shows "loop_inv (stop env running s)" "live_tasks (stop env running s) = []"
    "\<not> thread_running (stop env running s)"
proof -
  obtain t where t: "stop env running s = drain_registry env t" "loop_inv t" "\<not> thread_running t"
    using stop_before_drain [OF assms] .
  then show "loop_inv (stop env running s)" "live_tasks (stop env running s) = []"
    "\<not> thread_running (stop env running s)"
    using drain_settles [OF t(2)] drain_thread [OF t(2,3)] by simp_all
qed

text \<open>
  C6.  Stopping a loop leaves nothing behind: whatever the loop thread still did before it was
  joined, afterwards the registry is empty, the gauge is zero, every request ever scheduled has
  exactly one outcome, and a second stop changes nothing.\<close>

theorem stop_settles_everything:
  assumes "reachable env s" "runs_loop env running"
  shows "live_tasks (stop env running s) = [] \<and> in_flight_count (stop env running s) = 0 \<and>
    (\<forall>ch. ch < next_channel (stop env running s) \<longrightarrow> resolutions ch (stop env running s) = 1) \<and>
    stop env running' (stop env running s) = stop env running s"
proof (intro conjI allI impI)
  let ?s' = "stop env running s"
  note s' = stop_inv [OF reachable_inv [OF assms(1)] assms(2)]
  show "live_tasks ?s' = []" by (rule s'(2))
  show "in_flight_count ?s' = 0" using s' by (simp add: in_flight_count_def loop_inv_def owed_def)
  show "resolutions ch ?s' = 1" if "ch < next_channel ?s'" for ch using inv_resolved [OF s'(1) that] s'(2) by simp
  show "stop env running' ?s' = ?s'" using s' by (simp add: stop_def [of env running'] drain_registry_def)
qed

theorem stop_settles_everything_witness:
  "reachable sample_env sample_loop \<and> live_tasks (stop sample_env id sample_loop) = [] \<and>
   in_flight_count (stop sample_env id sample_loop) = 0 \<and>
   resolutions 0 (stop sample_env id sample_loop) = 1"
proof -
  have r: "runs_loop sample_env id" by (simp add: runs_loop_def)
  have "next_channel (stop sample_env id sample_loop) = 1" by code_simp
  then show ?thesis
    using stop_settles_everything [OF sample_loop_reachable r] sample_loop_reachable by simp
qed

end
