(* ===== verification/TurnProtocol.thy ===== *)
theory TurnProtocol
  imports History
begin

text \<open>
  What happens inside one turn: the order in which a turn enters and leaves the asyncio task and the
  context around the single step of the coroutine, what that step delivers, and what finishing does
  in which order.
\<close>

section \<open>The step of a turn\<close>

fun step_event :: "addr \<Rightarrow> pyobj option \<Rightarrow> event" where
  "step_event a None = Sent a"
| "step_event a (Some e) = Threw a e"

text \<open>
  A step is the call into the coroutine, whatever Python code does meanwhile, and what the step came
  to; the rest of \<open>step_once\<close> is calm.
\<close>

definition steps_through :: "addr \<Rightarrow> pyobj option \<Rightarrow> event_loop \<Rightarrow> event_loop \<Rightarrow> bool" where
  "steps_through a p s s' \<longleftrightarrow>
     (\<exists>t outcome. extends_log calm (emit (step_event a p) s) t \<and> extends_log calm (emit (Stepped a outcome) t) s')"

lemma steps_through_calm: "steps_through a p s s' \<Longrightarrow> extends_log calm s' s'' \<Longrightarrow> steps_through a p s s''"
  unfolding steps_through_def using extends_log_trans by blast

lemma steps_through_emit:
  "extends_log calm (emit (step_event a p) s) t \<Longrightarrow> steps_through a p s (emit (Stepped a outcome) t)"
  unfolding steps_through_def using extends_log_refl by blast

lemma step_log:
  assumes "(case p of Some exc \<Rightarrow> throw_step env a coro exc s | None \<Rightarrow> send_step env a coro s) = (out, s')"
  shows "steps_through a p s s'"
proof (cases p)
  case None
  obtain r s1 where r: "run_script (e_send env (log s) coro) env (emit (Sent a) s) = (r, s1)" by fastforce
  with None assms calm_script [OF r] show ?thesis
    by (auto simp: send_step_def Let_def intro!: steps_through_emit)
next
  case (Some e)
  obtain r s1 where r: "run_script (e_throw env (log s) coro e) env (emit (Threw a e) s) = (r, s1)" by fastforce
  with Some assms calm_script [OF r] show ?thesis
    by (auto simp: throw_step_def Let_def intro!: steps_through_emit)
qed

lemma step_once_log: "steps_through a p s (step_once env a coro p s)"
proof -
  obtain out s1 where o: "(case p of Some exc \<Rightarrow> throw_step env a coro exc s
                             | None \<Rightarrow> send_step env a coro s) = (out, s1)" by fastforce
  note 1 = steps_through_calm [OF step_log [OF o]]
  have fin: "steps_through a p s (finish env a q c s1)" "steps_through a p s (finish env a q c (print_error e s1))" for q c e
    by (rule 1 [OF calm_finish], rule 1 [OF extends_log_trans [OF calm_print calm_finish]])
  have res: "steps_through a p s (reschedule_or_abort env a s1)" by (rule 1 [OF calm_reschedule])
  have park: "steps_through a p s (apply_cancel_requested_mid_step env a s2)"
    "steps_through a p s (reschedule_or_abort env a (modify a g s2))" "steps_through a p s (abort env a s2)"
    if "park_on_future env a y s1 = (x, s2)" for x y s2 g
    by (rule 1 [OF extends_log_trans [OF calm_park [OF that]]],
        simp add: calm_mid_step extends_log_trans [OF calm_modify(1) calm_reschedule] calm_abort)+
  show ?thesis
    unfolding step_once_def o
    using fin res park
    by (auto simp: report_handler_error_def split: step_outcome.split park_outcome.split prod.split)
qed

section \<open>Entering and leaving\<close>

text \<open>
  Where the turn of a task stands: outside, inside the asyncio task, or inside its context as well.
  \<open>bracket\<close> checks one event and moves on; a failed entry does not enter.
\<close>

datatype place = Outside | InTask | InContext

fun bracket :: "addr \<Rightarrow> place \<Rightarrow> event \<Rightarrow> place option" where
  "bracket a p (EnteredTask b ok) = (if b = a \<and> p = Outside then Some (if ok then InTask else Outside) else None)"
| "bracket a p (EnteredContext b ok) = (if b = a \<and> p = InTask then Some (if ok then InContext else InTask) else None)"
| "bracket a p (Sent b) = (if b = a \<and> p = InContext then Some InContext else None)"
| "bracket a p (Threw b _) = (if b = a \<and> p = InContext then Some InContext else None)"
| "bracket a p (Stepped b _) = (if b = a \<and> p = InContext then Some InContext else None)"
| "bracket a p (ExitedContext b _) = (if b = a \<and> p = InContext then Some InTask else None)"
| "bracket a p (LeftTask b _) = (if b = a \<and> p = InTask then Some Outside else None)"
| "bracket a p _ = Some p"

fun brackets :: "addr \<Rightarrow> place \<Rightarrow> event list \<Rightarrow> place option" where
  "brackets a p [] = Some p"
| "brackets a p (e # es) = (case bracket a p e of None \<Rightarrow> None | Some q \<Rightarrow> brackets a q es)"

lemma brackets_append:
  "brackets a p (es @ es') = (case brackets a p es of None \<Rightarrow> None | Some q \<Rightarrow> brackets a q es')"
  by (induction es arbitrary: p) (auto split: option.split)

definition moves :: "addr \<Rightarrow> place \<Rightarrow> place \<Rightarrow> event_loop \<Rightarrow> event_loop \<Rightarrow> bool" where
  "moves a p q s s' \<longleftrightarrow> (\<exists>es. log s' = es @ log s \<and> brackets a p (rev es) = Some q)"

lemma moves_trans: "moves a p q s s' \<Longrightarrow> moves a q r s' s'' \<Longrightarrow> moves a p r s s''"
proof -
  assume "moves a p q s s'" "moves a q r s' s''"
  then obtain es es' where "log s' = es @ log s" "brackets a p (rev es) = Some q"
    "log s'' = es' @ log s'" "brackets a q (rev es') = Some r"
    by (auto simp: moves_def)
  then show ?thesis unfolding moves_def by (intro exI [of _ "es' @ es"]) (simp add: brackets_append)
qed

lemma moves_calm: "extends_log calm s s' \<Longrightarrow> moves a p p s s'"
proof -
  assume "extends_log calm s s'"
  then obtain es where es: "log s' = es @ log s" "list_all calm es" by (auto simp: extends_log_def)
  have "bracket a p e = Some p" if "calm e" for e using that by (cases e) auto
  then have "brackets a p l = Some p" if "list_all calm l" for l using that by (induction l) auto
  then show ?thesis using es by (auto simp: moves_def)
qed

lemma moves_emit: "bracket a p e = Some q \<Longrightarrow> moves a p q s (emit e s)"
  by (auto simp: moves_def intro: exI [of _ "[e]"])

lemma moves_emit_print: "bracket a p e = Some q \<Longrightarrow> moves a p q s (print_error r (emit e s))"
  using moves_trans [OF moves_emit moves_calm [OF calm_print]] .

lemma moves_step_once: "moves a InContext InContext s (step_once env a coro p s)"
proof -
  obtain t outcome where "extends_log calm (emit (step_event a p) s) t"
    "extends_log calm (emit (Stepped a outcome) t) (step_once env a coro p s)"
    using step_once_log unfolding steps_through_def by blast
  note c = this [THEN moves_calm]
  have "moves a InContext InContext s t" by (rule moves_trans [OF moves_emit c(1)]) (cases p; simp)
  moreover have "moves a InContext InContext t (step_once env a coro p s)"
    by (rule moves_trans [OF moves_emit c(2)]) simp
  ultimately show ?thesis by (rule moves_trans)
qed

lemma moves_leave: "leave_task env a s = (r, s') \<Longrightarrow> moves a InTask Outside s s'"
  by (auto simp: leave_task_def Let_def intro: moves_emit)

lemma moves_run_in_context: "moves a Outside Outside s (run_in_context env a coro ctx p s)"
proof -
  define n where "n = e_enter_task env (log s) a"
  define s1 where "s1 = print_error n (emit (EnteredTask a (is_ok n)) s)"
  define c where "c = e_context_enter env (log s1) ctx"
  define s2 where "s2 = print_error c (emit (EnteredContext a (is_ok c)) s1)"
  define s3 where "s3 = step_once env a coro p s2"
  define x where "x = e_context_exit env (log s3) ctx"
  define s4 where "s4 = print_error x (emit (ExitedContext a (is_ok x)) s3)"
  have s1: "moves a Outside (if is_ok n then InTask else Outside) s s1"
    unfolding s1_def by (rule moves_emit_print) simp
  have s2: "moves a InTask (if is_ok c then InContext else InTask) s1 s2"
    unfolding s2_def by (rule moves_emit_print) simp
  have s3: "moves a InContext InContext s2 s3" unfolding s3_def by (rule moves_step_once)
  have s4: "moves a InContext InTask s3 s4" unfolding s4_def by (rule moves_emit_print) simp
  have leave: "moves a InTask Outside t (snd (leave_task env a t))" for t
    using moves_leave [of env a t] by (cases "leave_task env a t") simp
  have ab: "moves a Outside Outside t (abort env a t)" for t by (rule moves_calm [OF calm_abort])
  consider "\<not> is_ok n" | "is_ok n" "\<not> is_ok c" | "is_ok n" "is_ok c" by blast
  then show ?thesis
    unfolding run_in_context_def Let_def n_def [symmetric] s1_def [symmetric] c_def [symmetric]
      s2_def [symmetric] s3_def [symmetric] x_def [symmetric] s4_def [symmetric]
  proof cases
    case 1
    with s1 ab moves_trans
    show "moves a Outside Outside s (if \<not> is_ok n then abort env a s1
      else if \<not> is_ok c then abort env a (snd (leave_task env a s2))
      else case leave_task env a s4 of (l, s5) \<Rightarrow> print_error l s5)" by auto
  next
    case 2
    then have "moves a Outside InTask s s2" using s1 s2 moves_trans by auto
    then have "moves a Outside Outside s (abort env a (snd (leave_task env a s2)))"
      using moves_trans [OF moves_trans [OF _ leave] ab] by blast
    with 2 show "moves a Outside Outside s (if \<not> is_ok n then abort env a s1
      else if \<not> is_ok c then abort env a (snd (leave_task env a s2))
      else case leave_task env a s4 of (l, s5) \<Rightarrow> print_error l s5)" by simp
  next
    case 3
    then have "moves a Outside InContext s s2" using s1 s2 moves_trans by auto
    then have "moves a Outside InTask s s4" using s3 s4 moves_trans by blast
    then have "moves a Outside Outside s (print_error l s5)" if "leave_task env a s4 = (l, s5)" for l s5
      using moves_trans [OF moves_trans [OF _ moves_leave [OF that]] moves_calm [OF calm_print]] by blast
    with 3 show "moves a Outside Outside s (if \<not> is_ok n then abort env a s1
      else if \<not> is_ok c then abort env a (snd (leave_task env a s2))
      else case leave_task env a s4 of (l, s5) \<Rightarrow> print_error l s5)" by (simp split: prod.split)
  qed
qed

section \<open>What a turn delivers\<close>

fun is_step :: "event \<Rightarrow> bool" where
  "is_step (Sent _) = True"
| "is_step (Threw _ _) = True"
| "is_step _ = False"

text \<open>\<open>delivers s s' l\<close>: the coroutine steps taken between \<open>s\<close> and \<open>s'\<close> are \<open>l\<close>.\<close>

definition delivers :: "event_loop \<Rightarrow> event_loop \<Rightarrow> event list \<Rightarrow> bool" where
  "delivers s s' l \<longleftrightarrow> (\<exists>es. log s' = es @ log s \<and> filter is_step es = l)"

lemma delivers_trans: "delivers s s' l \<Longrightarrow> delivers s' s'' l' \<Longrightarrow> delivers s s'' (l' @ l)"
  by (auto simp: delivers_def)

lemma delivers_calm: "extends_log calm s s' \<Longrightarrow> delivers s s' []"
proof -
  have "\<not> is_step e" if "calm e" for e using that by (cases e) auto
  then have "filter is_step l = []" if "list_all calm l" for l using that by (induction l) auto
  then show "extends_log calm s s' \<Longrightarrow> delivers s s' []" by (auto simp: extends_log_def delivers_def)
qed

lemma delivers_emit: "delivers s (emit e s) (if is_step e then [e] else [])"
  by (simp add: delivers_def)

lemma delivers_emit_print: "\<not> is_step e \<Longrightarrow> delivers s (print_error r (emit e s)) []"
  using delivers_trans [OF delivers_emit [of s e] delivers_calm [OF calm_print]] by simp

lemma delivers_step_once: "delivers s (step_once env a coro p s) [step_event a p]"
proof -
  obtain t outcome where c: "extends_log calm (emit (step_event a p) s) t"
    "extends_log calm (emit (Stepped a outcome) t) (step_once env a coro p s)"
    using step_once_log unfolding steps_through_def by blast
  have "delivers s t [step_event a p]"
    using delivers_trans [OF delivers_emit [of s "step_event a p"] delivers_calm [OF c(1)]] by (cases p) simp_all
  moreover have "delivers t (step_once env a coro p s) []"
    using delivers_trans [OF delivers_emit [of t "Stepped a outcome"] delivers_calm [OF c(2)]] by simp
  ultimately show ?thesis using delivers_trans by fastforce
qed

text \<open>The turn ended before its step, because the task or its context could not be entered.\<close>

definition not_entered :: "addr \<Rightarrow> event_loop \<Rightarrow> event_loop \<Rightarrow> bool" where
  "not_entered a s s' \<longleftrightarrow>
     (\<exists>es. log s' = es @ log s \<and> filter is_step es = [] \<and>
        (EnteredTask a False \<in> set es \<or> EnteredContext a False \<in> set es)) \<and> task_done a s'"

lemma finish_done: "task_done a (finish env a r c s)"
proof (cases "finished (lock_state s a)")
  case True
  then show ?thesis by (simp add: task_done_def finish_def channel_send_def lock_state_def split: option.split)
next
  case False
  let ?st = "record_completion c ((lock_state s a)\<lparr>finished := True, waiting_on := None, deferred_throw := None\<rparr>)"
  define s2 where "s2 = (set_state a (?st\<lparr>registered_with_asyncio := False, done_callbacks := []\<rparr>) s)
                          \<lparr>live_tasks := removeAll a (live_tasks s)\<rparr>"
  define s3 where "s3 = (if registered_with_asyncio ?st then unregister env a s2 else s2)"
  have f: "finish env a r c s = channel_send a r (fire_done_callbacks env a (done_callbacks ?st) s3)"
    using False by (simp add: finish_def Let_def s2_def s3_def)
  have "heap (fire_done_callbacks env a (done_callbacks ?st) s3) = heap s2"
    using unregister_log [of a env s2] fire_done_callbacks_log [of a env "done_callbacks ?st" s3]
    by (auto simp: s3_def)
  moreover have "finished ?st" by (cases c) (simp_all add: record_completion_def)
  ultimately show ?thesis
    unfolding f by (auto simp: task_done_def channel_send_def lock_state_def s2_def split: option.split)
qed

lemma abort_done: "task_done a (abort env a s)"
  unfolding abort_def by (rule finish_done)

lemma not_enteredI:
  assumes "delivers s t []" "EnteredTask a False \<in> set es \<or> EnteredContext a False \<in> set es" "log t = es @ log s"
  shows "not_entered a s (abort env a t)"
proof -
  have e: "filter is_step es = []" using assms(1,3) by (auto simp: delivers_def)
  obtain gs where gs: "log (abort env a t) = gs @ log t" "filter is_step gs = []"
    using delivers_calm [OF calm_abort] unfolding delivers_def by blast
  show ?thesis
    unfolding not_entered_def using abort_done assms(2,3) e gs by (intro conjI exI [of _ "gs @ es"]) auto
qed

lemma run_in_context_steps:
  "delivers s (run_in_context env a coro ctx p s) [step_event a p] \<or>
   not_entered a s (run_in_context env a coro ctx p s)"
proof -
  define n where "n = e_enter_task env (log s) a"
  define s1 where "s1 = print_error n (emit (EnteredTask a (is_ok n)) s)"
  define c where "c = e_context_enter env (log s1) ctx"
  define s2 where "s2 = print_error c (emit (EnteredContext a (is_ok c)) s1)"
  define s3 where "s3 = step_once env a coro p s2"
  define x where "x = e_context_exit env (log s3) ctx"
  define s4 where "s4 = print_error x (emit (ExitedContext a (is_ok x)) s3)"
  have s1: "delivers s s1 []" unfolding s1_def by (rule delivers_emit_print) simp
  have "delivers s1 s2 []" unfolding s2_def by (rule delivers_emit_print) simp
  with s1 have s2: "delivers s s2 []" using delivers_trans by fastforce
  have lv: "delivers t (snd (leave_task env a t)) []" for t
    using delivers_emit [of t "LeftTask a _"] by (simp add: leave_task_def Let_def)
  have s3: "delivers s s3 [step_event a p]"
    using delivers_trans [OF s2 delivers_step_once] by (simp add: s3_def)
  have "delivers s3 s4 []" unfolding s4_def by (rule delivers_emit_print) simp
  with s3 have s4: "delivers s s4 [step_event a p]" using delivers_trans by fastforce
  have s6: "delivers s (print_error l s5) [step_event a p]" if "leave_task env a s4 = (l, s5)" for l s5
    using delivers_trans [OF delivers_trans [OF s4 lv] delivers_calm [OF calm_print]] that by simp
  have pl: "\<exists>es. log (print_error r (emit e t)) = (es @ [e]) @ log t" for r e t
    by (cases r) (auto simp: print_error_def)
  have a1: "not_entered a s (abort env a s1)" if no: "\<not> is_ok n"
  proof -
    obtain es where "log s1 = (es @ [EnteredTask a False]) @ log s"
      using pl [of n "EnteredTask a (is_ok n)" s] no by (auto simp: s1_def)
    then show ?thesis using not_enteredI [OF s1, of a "es @ [EnteredTask a False]"] by simp
  qed
  have a2: "not_entered a s (abort env a (snd (leave_task env a s2)))" if no: "\<not> is_ok c"
  proof -
    obtain es where "log s2 = (es @ [EnteredContext a False]) @ log s1"
      using pl [of c "EnteredContext a (is_ok c)" s1] no by (auto simp: s2_def)
    moreover obtain es' where "log s1 = es' @ log s" using s1 by (auto simp: delivers_def)
    moreover obtain e where "log (snd (leave_task env a s2)) = e # log s2" by (simp add: leave_task_def Let_def)
    ultimately have "log (snd (leave_task env a s2)) = (e # es @ [EnteredContext a False] @ es') @ log s" by simp
    then show ?thesis
      using not_enteredI [of s "snd (leave_task env a s2)" a "e # es @ [EnteredContext a False] @ es'"]
        delivers_trans [OF s2 lv] by simp
  qed
  show ?thesis
    unfolding run_in_context_def Let_def n_def [symmetric] s1_def [symmetric] c_def [symmetric]
      s2_def [symmetric] s3_def [symmetric] x_def [symmetric] s4_def [symmetric]
    using a1 a2 s6 by (auto split: prod.split)
qed

text \<open>A turn of a task that has been started, down to its step.\<close>

lemma call_task_started:
  assumes "\<not> finished (lock_state s a)" "coroutine (lock_state s a) = Some coro"
    "task_context (lock_state s a) = Some ctx"
  obtains p s3 where "call_task env a fut s = run_in_context env a coro ctx p s3"
    "delivers s s3 []"
    "choose_throw env (deferred_throw (lock_state s a)) fut (must_cancel (lock_state s a))
       (cancel_message (lock_state s a))
       (set_state a ((lock_state s a)\<lparr>waiting_on := None, must_cancel := False, cancel_message := None,
                                 deferred_throw := None\<rparr>) (emit (TurnStarted a) s)) = (p, s3)"
proof -
  let ?st = "lock_state s a"
  define s1 where "s1 = set_state a (?st\<lparr>waiting_on := None, must_cancel := False, cancel_message := None,
                                 deferred_throw := None\<rparr>) (emit (TurnStarted a) s)"
  obtain p s3 where c: "choose_throw env (deferred_throw ?st) fut (must_cancel ?st) (cancel_message ?st) s1 = (p, s3)"
    by fastforce
  have h: "heap s3 = heap s1" using choose_throw_silent [OF c] by blast
  have "extends_log calm (emit (TurnStarted a) s) s1" unfolding s1_def by (rule calm_modify(2))
  then have "extends_log calm (emit (TurnStarted a) s) s3" using calm_choose [OF c] extends_log_trans by blast
  moreover have "coroutine (lock_state s3 a) = Some coro" "task_context (lock_state s3 a) = Some ctx"
    using assms(2,3) by (simp_all add: lock_state_def h) (simp_all add: s1_def lock_state_def)
  then have "call_task env a fut s = run_in_context env a coro ctx p s3"
    using assms c by (simp add: call_task_def Let_def s1_def)
  moreover have "delivers s s3 []" if "extends_log calm (emit (TurnStarted a) s) s3"
    using delivers_trans [OF delivers_emit [of s "TurnStarted a"] delivers_calm [OF that]] by simp
  ultimately show ?thesis using that c unfolding s1_def by blast
qed

text \<open>Whatever a started task is to get in its turn is the one step of the turn, unless the turn is not entered.\<close>

lemma started_turn:
  assumes "\<not> finished (lock_state s a)" "coroutine (lock_state s a) = Some coro"
    "task_context (lock_state s a) = Some ctx"
  obtains p t where "choose_throw env (deferred_throw (lock_state s a)) fut (must_cancel (lock_state s a))
       (cancel_message (lock_state s a))
       (set_state a ((lock_state s a)\<lparr>waiting_on := None, must_cancel := False, cancel_message := None,
                                 deferred_throw := None\<rparr>) (emit (TurnStarted a) s)) = (p, t)"
    "delivers s (call_task env a fut s) [step_event a p] \<or> not_entered a s (call_task env a fut s)"
proof -
  obtain p s3 where c: "call_task env a fut s = run_in_context env a coro ctx p s3" "delivers s s3 []"
    "choose_throw env (deferred_throw (lock_state s a)) fut (must_cancel (lock_state s a))
       (cancel_message (lock_state s a))
       (set_state a ((lock_state s a)\<lparr>waiting_on := None, must_cancel := False, cancel_message := None,
                                 deferred_throw := None\<rparr>) (emit (TurnStarted a) s)) = (p, s3)"
    using call_task_started [OF assms] .
  from run_in_context_steps [of s3 env a coro ctx p]
  have "delivers s (call_task env a fut s) [step_event a p] \<or> not_entered a s (call_task env a fut s)"
  proof
    assume "delivers s3 (run_in_context env a coro ctx p s3) [step_event a p]"
    with delivers_trans [OF c(2)] show ?thesis unfolding c(1) by fastforce
  next
    assume n: "not_entered a s3 (run_in_context env a coro ctx p s3)"
    obtain es where "log s3 = es @ log s" "filter is_step es = []" using c(2) by (auto simp: delivers_def)
    with n show ?thesis unfolding c(1) not_entered_def by (metis Un_iff append.assoc filter_append append_Nil set_append)
  qed
  with c(3) show ?thesis by (rule that)
qed

end
