(* ===== verification/TaskContract.thy ===== *)
theory TaskContract
  imports TurnProtocol
begin

text \<open>
  The contract of \<open>HandlerTask\<close>: what a turn does as seen from outside, how cancellation is
  delivered, what finishing notifies and in which order, and what the Task and Future protocol
  methods answer.
\<close>

section \<open>Turns\<close>

lemma call_task_moves: "moves a Outside Outside s (call_task env a fut s)"
proof (cases "finished (lock_state s a)")
  case True
  then show ?thesis by (auto simp: call_task_def Let_def intro: moves_emit)
next
  case False
  let ?st = "lock_state s a"
  define s1 where "s1 = set_state a (?st\<lparr>waiting_on := None, must_cancel := False, cancel_message := None,
                                 deferred_throw := None\<rparr>) (emit (TurnStarted a) s)"
  obtain running s2 where r: "(if coroutine ?st = None then start env a s1 else (True, s1)) = (running, s2)"
    by fastforce
  obtain must where must: "must_cancel ?st = must" by simp
  obtain p s3 where c: "choose_throw env (deferred_throw ?st) fut must (cancel_message ?st) s2 = (p, s3)"
    by fastforce
  have "moves a Outside Outside s (emit (TurnStarted a) s)" by (rule moves_emit) simp
  from moves_trans [OF this moves_calm [OF calm_modify(2)]] have 1: "moves a Outside Outside s s1" unfolding s1_def .
  have 2: "moves a Outside Outside s s2"
    using r 1 moves_trans [OF 1 moves_calm [OF calm_start]] by (auto split: if_splits)
  have 3: "moves a Outside Outside s s3" by (rule moves_trans [OF 2 moves_calm [OF calm_choose [OF c]]])
  have fin: "moves a Outside Outside s (finish env a q k s1)" for q k
    by (rule moves_trans [OF 1 moves_calm [OF calm_finish]])
  have run: "moves a Outside Outside s (run_in_context env a coro ctx p s3)" for coro ctx
    by (rule moves_trans [OF 3 moves_run_in_context])
  have st: "lock_state (emit (TurnStarted a) s) a = ?st" by simp
  show ?thesis
    unfolding call_task_def Let_def st s1_def [symmetric] r must c prod.case
    using False fin run 2 3 by (auto split: option.split)
qed

text \<open>
  C7.  Every turn keeps the asyncio protocol, whatever fails in it: the task is entered before its
  context, the coroutine is stepped only inside both, what was entered is left again in the opposite
  order (an entry that failed is not), and the turn ends outside.\<close>

theorem turn_is_bracketed:
  "\<exists>es. log (call_task env a fut s) = es @ log s \<and> brackets a Outside (rev es) = Some Outside"
  using call_task_moves by (simp add: moves_def)

lemma outcome_of_response: "channel_outcome ch (Responded ch r # l) = Some (Some r)"
  by simp

lemma no_channel_outcome:
  "list_all (\<lambda>e. \<not> channel_event e) es \<Longrightarrow> channel_outcome ch (es @ l) = channel_outcome ch l"
  by (rule channel_outcome_append) (rule filter_no_channel)

text \<open>
  What a finished task answered (\<open>r\<close>) and reports of itself, against the step its coroutine took in
  the last turn.  Without a step, or after one that only yielded, there is no outcome of the handler
  to report: the call of the handler failed, it was cancelled before, or the scheduler had to give
  up, and then the answer is the opaque 500.
\<close>

definition reports :: "addr \<Rightarrow> step_outcome option \<Rightarrow> handler_response \<Rightarrow> event_loop \<Rightarrow> bool" where
  "reports a step r s \<longleftrightarrow>
     (case step of
        Some (StepReturned v) \<Rightarrow>
          r = snd (response_from_return_value v) \<and> result a s = Inr v \<and> exception a s = Inr None
      | Some (StepRaised e) \<Rightarrow>
          r = internal_error \<and>
          (if is_instance CancelledError e
           then cancelled a s \<and> result a s = Inl (cancelled_error_instance (first_arg e))
           else \<not> cancelled a s \<and> result a s = Inl e \<and> exception a s = Inr (Some e))
      | Some (StepYielded _) \<Rightarrow> r = internal_error \<and> \<not> cancelled a s \<and> result a s = Inr PyNone
      | None \<Rightarrow> r = internal_error \<and> (case result a s of Inl _ \<Rightarrow> True | Inr v \<Rightarrow> v = PyNone))"

lemma fits_reports:
  assumes "unsettled (lock_state s a)" "rendered r c" "fits step c"
    "lock_state s' a = final_state c (lock_state s a)"
  shows "reports a step r s'"
proof -
  note d = reports_def result_def exception_def cancelled_def Let_def final_state_def record_completion_def unsettled_def
  show ?thesis
  proof (cases c)
    case (Returned v)
    with assms show ?thesis by (simp add: d)
  next
    case (Raised e)
    with assms show ?thesis by (auto simp: d)
  next
    case (Cancelled m)
    with assms show ?thesis by (auto simp: d)
  next
    case Aborted
    with assms show ?thesis by (auto simp: d)
  qed
qed

text \<open>The whole effect of completing a task on its channel, its step and its state.\<close>

lemma ends_log:
  assumes f: "frame a s s1" and u: "unsettled (lock_state s a)" and ch: "response_sender (heap s a) = Some ch"
    and g: "log_grows (finish env a r k s1) s'"
  obtains es gs fs where "log s' = gs @ Responded ch r # es @ fs @ log s"
    "list_all (\<lambda>e. \<not> channel_event e) (es @ fs)" "list_all (\<lambda>e. \<not> channel_event e) gs"
    "lock_state s' a = final_state k (lock_state s1 a)" "last_step a (log s') = last_step a (log s1)"
proof -
  have u1: "unsettled (lock_state s1 a)" by (rule frame_unsettled [OF f u])
  have ch1: "response_sender (heap s1 a) = Some ch" using frame_sender [OF f] ch by simp
  obtain es where es: "list_all (notify_event a) es" and fin: "finish env a r k s1 =
      s1\<lparr>live_tasks := removeAll a (live_tasks s1),
        heap := (heap s1)(a := (heap s1 a)\<lparr>tstate := final_state k (lock_state s1 a),
                                       response_sender := None\<rparr>),
        in_flight := in_flight s1 - 1,
        log := Responded ch r # es @ log s1\<rparr>"
    using finish_unfinished [OF unsettled_unfinished [OF u1] ch1] by blast
  obtain gs where gs: "s' = (finish env a r k s1)\<lparr>log := gs @ log (finish env a r k s1)\<rparr>"
    "list_all (\<lambda>e. \<not> channel_event e) gs"
    using g unfolding log_grows_def by (auto intro: list.pred_mono_strong)
  obtain fs where fs: "log s1 = fs @ log s" "list_all (\<lambda>e. \<not> channel_event e) fs"
    using f by (auto simp: frame_def extends_log_def)
  have "list_all (\<lambda>e. \<not> channel_event e) es" using es by (rule list.pred_mono_strong) simp
  moreover have "log s' = gs @ Responded ch r # es @ fs @ log s" by (subst gs(1)) (simp add: fin fs(1))
  moreover have "lock_state s' a = final_state k (lock_state s1 a)" by (subst gs(1)) (simp add: fin lock_state_def)
  moreover have "last_step a (log s') = last_step a (log s1)"
    using log_grows_step [OF g] last_step_extends [OF calm_finish] by simp
  ultimately show ?thesis using that fs(2) gs(2) by (simp add: list_all_append)
qed

lemma completes_outcome:
  assumes c: "completes env a s s'" and u: "unsettled (lock_state s a)"
    and ch: "response_sender (heap s a) = Some ch"
  shows "\<exists>r. channel_outcome ch (log s') = Some (Some r) \<and> reports a (last_step a (log s')) r s'"
proof -
  obtain s1 r k where s1: "silent a s s1" and k: "rendered r k" "fits (last_step a (log s1)) k"
    and g: "log_grows (finish env a r k s1) s'"
    using c by (auto simp: completes_def)
  have f: "frame a s s1" using s1 by (simp add: silent_def)
  obtain es gs fs where l: "log s' = gs @ Responded ch r # es @ fs @ log s" "list_all (\<lambda>e. \<not> channel_event e) gs"
    "lock_state s' a = final_state k (lock_state s1 a)" "last_step a (log s') = last_step a (log s1)"
    using ends_log [OF f u ch g] by metis
  then have "channel_outcome ch (log s') = Some (Some r)" using no_channel_outcome outcome_of_response by simp
  moreover have "reports a (last_step a (log s')) r s'"
    using fits_reports [OF frame_unsettled [OF f u] k l(3)] l(4) by simp
  ultimately show ?thesis by blast
qed

text \<open>
  C2.  A turn of a live task has exactly two endings.  Either the coroutine was stepped and yielded,
  and the task stays live, unfinished and unanswered, with one further turn arranged; or the task is
  done and out of the registry, its client has a response, and response, \<open>result()\<close>,
  \<open>exception()\<close> and \<open>cancelled()\<close> say what the step came to: the rendering of the value that
  was returned, and the opaque 500 with that very exception or cancellation where one was raised.
  Where the handler came to nothing in this turn the response is the 500; a task that was aborted
  after a yield then answers \<open>result()\<close> with \<open>None\<close>.\<close>

theorem turn_yields_or_responds:
  assumes "reachable env s" "a \<in> set (live_tasks s)" "response_sender (heap s a) = Some ch"
    "s' = call_task env a fut s"
  shows "(a \<in> set (live_tasks s') \<and> \<not> task_done a s' \<and> pending s' a = 1 \<and> channel_outcome ch (log s') = None \<and>
     (\<exists>y. last_step a (log s') = Some (StepYielded y))) \<or>
    (a \<notin> set (live_tasks s') \<and> task_done a s' \<and> pending s' a = 0 \<and>
     (\<exists>r. channel_outcome ch (log s') = Some (Some r) \<and> reports a (last_step a (log s')) r s'))"
proof -
  let ?s0 = "emit (TurnStarted a) s"
  have inv: "loop_inv s" by (rule reachable_inv [OF assms(1)])
  note live = loop_inv_live [OF inv assms(2)]
  have "Some ch \<in> senders (set (live_tasks s)) s" using assms(2,3) by (force simp: senders_def)
  then have "resolutions ch s = 0" using inv by (simp add: loop_inv_def owed_def channels_ok_def)
  then have "channel_outcome ch (log s) = None" using outcome_iff_resolved [of ch s] by blast
  then have out: "channel_outcome ch (log ?s0) = None" by simp
  have inv': "loop_inv s'" using call_task_inv [OF inv] live(3) assms(4) by simp
  have "turn_ok env a ?s0 s'"
    unfolding assms(4) using live(1,2) by (intro call_task_turn) (simp_all add: context_ok_def)
  then consider "yields a ?s0 s'" "\<exists>y. last_step a (log s') = Some (StepYielded y)" | "completes env a ?s0 s'"
    unfolding turn_ok_def by blast
  then show ?thesis
  proof cases
    case 1
    then have f: "frame a ?s0 s'" by (simp add: yields_def)
    then obtain es where "log s' = es @ log ?s0" "list_all (\<lambda>e. \<not> channel_event e) es"
      by (auto simp: frame_def extends_log_def)
    then have "channel_outcome ch (log s') = None" using no_channel_outcome out by metis
    moreover have "a \<in> set (live_tasks s')" using frame_globals [OF f] assms(2) by simp
    ultimately show ?thesis
      using loop_inv_live(1,3) [OF inv'] 1(2) by (simp add: task_done_def)
  next
    case 2
    have o: "owed (live_tasks s) ?s0" using inv by (simp add: loop_inv_def turn_started_owed)
    note settled = ends_settles [OF completes_ends [OF 2] o assms(2)]
    have "pending s' a = 0" using settled live(3) by simp
    moreover have "\<exists>r. channel_outcome ch (log s') = Some (Some r) \<and> reports a (last_step a (log s')) r s'"
      by (rule completes_outcome [OF 2]) (use live(1) assms(3) in simp_all)
    ultimately show ?thesis using settled by (simp add: task_done_def)
  qed
qed

theorem turn_yields_or_responds_witness:
  "0 \<in> set (live_tasks sample_loop) \<and> task_done 0 sample_done \<and>
   last_step 0 (log sample_done) = Some (StepReturned (PyInt 7)) \<and>
   (\<exists>r. channel_outcome 0 (log sample_done) = Some (Some r) \<and>
        reports 0 (Some (StepReturned (PyInt 7))) r sample_done)"
proof -
  have "task_done 0 sample_done \<and> last_step 0 (log sample_done) = Some (StepReturned (PyInt 7))" by code_simp
  then show ?thesis
    using turn_yields_or_responds [OF sample_loop_reachable, of 0 0 sample_done None]
    by (simp add: sample_done_def [symmetric])
qed

section \<open>Delivering exceptions\<close>

lemma choose_throw_must:
  "choose_throw env d fut True msg s = (p, s') \<Longrightarrow>
     \<exists>e. p = Some e \<and> is_instance CancelledError e \<and>
       (e = cancelled_error_instance msg \<or> d = Some e \<or>
        (\<exists>f. fut = Some f \<and> e_future_result env (log s) f = Inl e))"
  by (auto simp: choose_throw_def Let_def cancelled_error_instance_def is_instance_def
      split: option.splits sum.splits if_splits)

text \<open>
  C14.  A cancellation that was recorded on a started task is delivered at its next turn: the one
  step of that turn throws a \<open>CancelledError\<close> into the coroutine, with the message of the
  cancellation, unless what was to be thrown anyway is a \<open>CancelledError\<close> itself (from the awaited
  future or deferred), which then stands for it.  The only other way is a turn that cannot be entered,
  and that one ends the task.\<close>

theorem recorded_cancel_is_thrown:
  assumes "\<not> finished (lock_state s a)" "coroutine (lock_state s a) = Some coro"
    "task_context (lock_state s a) = Some ctx" "must_cancel (lock_state s a)"
  shows "\<exists>es. log (call_task env a fut s) = es @ log s \<and>
    ((\<exists>x. filter is_step es = [Threw a x] \<and> is_instance CancelledError x \<and>
        (x = cancelled_error_instance (cancel_message (lock_state s a)) \<or>
         deferred_throw (lock_state s a) = Some x \<or>
         (\<exists>f. fut = Some f \<and> e_future_result env (TurnStarted a # log s) f = Inl x))) \<or>
     filter is_step es = [] \<and> (EnteredTask a False \<in> set es \<or> EnteredContext a False \<in> set es) \<and>
     task_done a (call_task env a fut s))"
proof -
  obtain p t where c: "choose_throw env (deferred_throw (lock_state s a)) fut True
       (cancel_message (lock_state s a))
       (set_state a ((lock_state s a)\<lparr>waiting_on := None, must_cancel := False, cancel_message := None,
                                 deferred_throw := None\<rparr>) (emit (TurnStarted a) s)) = (p, t)"
    and d: "delivers s (call_task env a fut s) [step_event a p] \<or> not_entered a s (call_task env a fut s)"
    using started_turn [OF assms(1-3)] assms(4) by (metis (full_types))
  obtain x where x: "p = Some x" "is_instance CancelledError x"
    "x = cancelled_error_instance (cancel_message (lock_state s a)) \<or> deferred_throw (lock_state s a) = Some x \<or>
     (\<exists>f. fut = Some f \<and> e_future_result env (TurnStarted a # log s) f = Inl x)"
    using choose_throw_must [OF c] by auto
  from d show ?thesis unfolding delivers_def not_entered_def x(1) using x(2,3) by auto
qed

text \<open>A started task whose future was asked to cancel and refused.\<close>

definition sample_started :: event_loop where
  "sample_started =
     modify 0 (\<lambda>st. st\<lparr>coroutine := Some (PyRef 10 None), task_context := Some (PyRef 11 None),
                       must_cancel := True\<rparr>) sample_loop"

theorem recorded_cancel_is_thrown_witness:
  "must_cancel (lock_state sample_started 0) \<and>
   (\<exists>es x. log (call_task sample_env 0 None sample_started) = es @ log sample_started \<and>
      filter is_step es = [Threw 0 x] \<and> is_instance CancelledError x)"
proof -
  have s: "\<not> finished (lock_state sample_started 0)" "coroutine (lock_state sample_started 0) = Some (PyRef 10 None)"
    "task_context (lock_state sample_started 0) = Some (PyRef 11 None)" "must_cancel (lock_state sample_started 0)"
    by code_simp+
  have "EnteredTask 0 False \<notin> set (log (call_task sample_env 0 None sample_started))"
    "EnteredContext 0 False \<notin> set (log (call_task sample_env 0 None sample_started))" by code_simp+
  then show ?thesis using recorded_cancel_is_thrown [OF s, of sample_env None] s(4) by fastforce
qed

text \<open>
  C15.  Cancelled before it ever ran: the handler is not called at all, no coroutine is stepped, the
  client gets the 500 and the task reports itself cancelled with the message of the request.\<close>

theorem cancelled_before_first_step:
  assumes "\<not> finished (lock_state s a)" "coroutine (lock_state s a) = None"
    "must_cancel (lock_state s a)" "response_sender (heap s a) = Some ch" "channel_outcome ch (log s) = None"
    "s' = call_task env a fut s"
  shows "cancelled a s' \<and> result a s' = Inl (cancelled_error_instance (cancel_message (lock_state s a))) \<and>
    channel_outcome ch (log s') = Some (Some internal_error) \<and>
    (\<exists>es. log s' = es @ log s \<and> CalledHandler a \<notin> set es \<and> filter is_step es = [])"
proof -
  let ?st = "lock_state s a"
  define s1 where "s1 = set_state a (?st\<lparr>waiting_on := None, must_cancel := False, cancel_message := None,
                                 deferred_throw := None\<rparr>) (emit (TurnStarted a) s)"
  have s': "s' = finish env a internal_error (Cancelled (cancel_message ?st)) s1"
    using assms by (simp add: call_task_def Let_def s1_def)
  have "\<not> finished (lock_state s1 a)" "response_sender (heap s1 a) = Some ch"
    using assms by (simp_all add: s1_def)
  then obtain es where es: "list_all (notify_event a) es" and fin: "s' =
      s1\<lparr>live_tasks := removeAll a (live_tasks s1),
        heap := (heap s1)(a := (heap s1 a)\<lparr>tstate := final_state (Cancelled (cancel_message ?st)) (lock_state s1 a),
                                       response_sender := None\<rparr>),
        in_flight := in_flight s1 - 1,
        log := Responded ch internal_error # es @ log s1\<rparr>"
    using finish_unfinished unfolding s' by blast
  have l: "log s' = (Responded ch internal_error # es @ [TurnStarted a]) @ log s" by (simp add: fin s1_def)
  have nc: "list_all (\<lambda>e. \<not> channel_event e) (es @ [TurnStarted a])"
    using es by (auto intro: list.pred_mono_strong)
  have "channel_outcome ch ((es @ [TurnStarted a]) @ log s) = None"
    using no_channel_outcome [OF nc] assms(5) by simp
  then have out: "channel_outcome ch (log s') = Some (Some internal_error)"
    using outcome_of_response [of ch _ "[]"] l by simp
  have "filter is_step es = []" "CalledHandler a \<notin> set es" using es by (induction es) (auto elim!: notify_event.elims)
  then have ev: "\<exists>es. log s' = es @ log s \<and> CalledHandler a \<notin> set es \<and> filter is_step es = []"
    using l by (intro exI [of _ "Responded ch internal_error # es @ [TurnStarted a]"]) simp
  have st: "lock_state s' a = final_state (Cancelled (cancel_message ?st)) (lock_state s1 a)"
    by (simp add: fin lock_state_def)
  have "cancelled a s' \<and> result a s' = Inl (cancelled_error_instance (cancel_message ?st))"
    by (simp add: cancelled_def result_def st final_state_def record_completion_def)
  with out ev show ?thesis by blast
qed

theorem cancelled_before_first_step_witness:
  "let s = snd (cancel sample_env 0 (Some (PyStr [98, 121, 101])) sample_loop) in
   result 0 (call_task sample_env 0 None s) = Inl (PyExc CancelledError [PyStr [98, 121, 101]]) \<and>
   channel_outcome 0 (log (call_task sample_env 0 None s)) = Some (Some internal_error)"
proof -
  let ?s = "snd (cancel sample_env 0 (Some (PyStr [98, 121, 101])) sample_loop)"
  have "\<not> finished (lock_state ?s 0)" "coroutine (lock_state ?s 0) = None" "must_cancel (lock_state ?s 0)"
    "response_sender (heap ?s 0) = Some 0" "channel_outcome 0 (log ?s) = None"
    "cancel_message (lock_state ?s 0) = Some (PyStr [98, 121, 101])"
    by code_simp+
  then show ?thesis
    using cancelled_before_first_step [of ?s 0 0] by (simp add: cancelled_error_instance_def Let_def)
qed

text \<open>
  C16.  What a turn of a started task without a recorded cancellation delivers: exactly one step,
  unless the turn cannot be entered, which ends the task.  In a turn that a finished future asked for,
  the step throws the error of the future, or resumes the coroutine when the future has a result; in
  any other turn it throws the protocol error a bad yield left behind, or resumes the coroutine.  (A
  bad yield asks for its own turn, so that no future is to call back then.)\<close>

theorem turn_delivers_once:
  assumes "\<not> finished (lock_state s a)" "coroutine (lock_state s a) = Some coro"
    "task_context (lock_state s a) = Some ctx" "\<not> must_cancel (lock_state s a)"
    "fut = None \<or> deferred_throw (lock_state s a) = None"
  shows "\<exists>es. log (call_task env a fut s) = es @ log s \<and>
    (filter is_step es =
       [case fut of
          Some f \<Rightarrow>
            (case e_future_result env (TurnStarted a # log s) f of
               Inl wake_error \<Rightarrow> Threw a wake_error
             | Inr _ \<Rightarrow> Sent a)
        | None \<Rightarrow>
            (case deferred_throw (lock_state s a) of
               Some protocol_error \<Rightarrow> Threw a protocol_error
             | None \<Rightarrow> Sent a)] \<or>
     filter is_step es = [] \<and> (EnteredTask a False \<in> set es \<or> EnteredContext a False \<in> set es) \<and>
     task_done a (call_task env a fut s))"
proof -
  let ?st = "lock_state s a"
  obtain p t where c: "choose_throw env (deferred_throw ?st) fut False (cancel_message ?st)
       (set_state a (?st\<lparr>waiting_on := None, must_cancel := False, cancel_message := None,
                        deferred_throw := None\<rparr>) (emit (TurnStarted a) s)) = (p, t)"
    and d: "delivers s (call_task env a fut s) [step_event a p] \<or> not_entered a s (call_task env a fut s)"
    using started_turn [OF assms(1-3)] assms(4) by (metis (full_types))
  have "step_event a p =
      (case fut of
         Some f \<Rightarrow>
           (case e_future_result env (TurnStarted a # log s) f of
              Inl wake_error \<Rightarrow> Threw a wake_error
            | Inr _ \<Rightarrow> Sent a)
       | None \<Rightarrow> (case deferred_throw ?st of Some protocol_error \<Rightarrow> Threw a protocol_error | None \<Rightarrow> Sent a))"
    using c assms(5) by (auto simp: choose_throw_def Let_def split: option.splits sum.splits)
  with d show ?thesis unfolding delivers_def not_entered_def by auto
qed

theorem turn_delivers_once_witness:
  "let s = modify 0 (\<lambda>st. st\<lparr>must_cancel := False, deferred_throw := Some bare_yield_error\<rparr>) sample_started in
   \<exists>es. log (call_task sample_env 0 None s) = es @ log s \<and> filter is_step es = [Threw 0 bare_yield_error]"
proof -
  let ?s = "modify 0 (\<lambda>st. st\<lparr>must_cancel := False, deferred_throw := Some bare_yield_error\<rparr>) sample_started"
  have s: "\<not> finished (lock_state ?s 0)" "coroutine (lock_state ?s 0) = Some (PyRef 10 None)"
    "task_context (lock_state ?s 0) = Some (PyRef 11 None)" "\<not> must_cancel (lock_state ?s 0)"
    "deferred_throw (lock_state ?s 0) = Some bare_yield_error"
    by (simp_all add: sample_started_def) (simp_all add: sample_loop_eval opened_def new_task_def lock_state_def
      default_task_state_def)
  have "EnteredTask 0 False \<notin> set (log (call_task sample_env 0 None ?s))"
    "EnteredContext 0 False \<notin> set (log (call_task sample_env 0 None ?s))" by code_simp+
  then show ?thesis using turn_delivers_once [OF s(1-4), of None sample_env] s(5) by (fastforce simp: Let_def)
qed

section \<open>Finishing\<close>

fun fired :: "addr \<Rightarrow> event \<Rightarrow> (pyobj \<times> pyobj) option" where
  "fired a (ScheduledCallback cb ctx b _) = (if b = a then Some (cb, ctx) else None)"
| "fired a _ = None"

lemma fire_done_callbacks_fires:
  assumes "\<forall>l ctx. e_set_context env l ctx = None"
  shows "\<exists>es. log (fire_done_callbacks env a cbs s) = es @ log s \<and> List.map_filter (fired a) (rev es) = cbs"
proof (induction cbs arbitrary: s)
  case Nil
  show ?case by (simp add: List.map_filter_def)
next
  case (Cons p cbs)
  obtain cb ctx where p: "p = (cb, ctx)" by (cases p)
  obtain t ok es0 where t: "fire_done_callbacks env a (p # cbs) s = fire_done_callbacks env a cbs t"
    "log t = es0 @ ScheduledCallback cb ctx a ok # log s" "es0 = [] \<or> (\<exists>e. es0 = [Printed e])"
    using assms by (fastforce simp: p fire_callback_def split: option.splits)
  obtain es where es: "log (fire_done_callbacks env a cbs t) = es @ log t"
    "List.map_filter (fired a) (rev es) = cbs"
    using Cons.IH by blast
  have "List.map_filter (fired a) (rev (es @ es0 @ [ScheduledCallback cb ctx a ok])) = p # cbs"
    using es(2) t(3) by (auto simp: map_filter_def p)
  with es t show ?case
    by (intro exI [of _ "es @ es0 @ [ScheduledCallback cb ctx a ok]"]) auto
qed

text \<open>
  C17.  Finishing happens in the order the code promises: asyncio is told first if the task was
  registered there, then every done callback is scheduled, once each, in the order it was added, and
  the client's response is released last of all.  (The keyword dictionary of the callback's context
  is assumed to be built.)\<close>

theorem response_released_last:
  assumes "\<not> finished (lock_state s a)" "response_sender (heap s a) = Some ch"
    "\<forall>l ctx. e_set_context env l ctx = None"
  shows "\<exists>es ev. log (finish env a r c s) = Responded ch r # es @ ev @ log s \<and>
    List.map_filter (fired a) (rev es) = done_callbacks (lock_state s a) \<and>
    (if registered_with_asyncio (lock_state s a)
     then \<exists>ok pr. ev = pr @ [Unregistered a ok] \<and> (\<forall>e. e \<in> set pr \<longrightarrow> (\<exists>x. e = Printed x))
     else ev = [])"
proof -
  let ?st = "record_completion c ((lock_state s a)\<lparr>finished := True, waiting_on := None, deferred_throw := None\<rparr>)"
  define s2 where "s2 = (set_state a (?st\<lparr>registered_with_asyncio := False, done_callbacks := []\<rparr>) s)
                          \<lparr>live_tasks := removeAll a (live_tasks s)\<rparr>"
  define s3 where "s3 = (if registered_with_asyncio (lock_state s a) then unregister env a s2 else s2)"
  define s4 where "s4 = fire_done_callbacks env a (done_callbacks (lock_state s a)) s3"
  have st: "registered_with_asyncio ?st = registered_with_asyncio (lock_state s a)"
    "done_callbacks ?st = done_callbacks (lock_state s a)"
    by (cases c; simp add: record_completion_def)+
  have fin: "finish env a r c s = channel_send a r s4"
    using assms(1) unfolding finish_def Let_def st by (simp add: s2_def s3_def s4_def)
  obtain ev where ev: "log s3 = ev @ log s" "if registered_with_asyncio (lock_state s a)
     then \<exists>ok pr. ev = pr @ [Unregistered a ok] \<and> (\<forall>e. e \<in> set pr \<longrightarrow> (\<exists>x. e = Printed x)) else ev = []"
  proof (cases "registered_with_asyncio (lock_state s a)")
    case True
    then show ?thesis
      using that [of "[Unregistered a True]"] that [of "[Printed _, Unregistered a False]"]
      by (cases "e_unregister env (log s) a")
        (auto simp: s3_def s2_def unregister_def Let_def print_error_def is_ok_def)
  next
    case False
    then show ?thesis using that [of "[]"] by (simp add: s3_def s2_def)
  qed
  obtain es where es: "log s4 = es @ log s3" "List.map_filter (fired a) (rev es) = done_callbacks (lock_state s a)"
    using fire_done_callbacks_fires [OF assms(3)] unfolding s4_def by blast
  obtain es' where "s4 = s3\<lparr>log := es' @ log s3\<rparr>" using fire_done_callbacks_log unfolding s4_def by blast
  moreover have "heap s3 = heap s2" using unregister_log [of a env s2] by (auto simp: s3_def)
  ultimately have "response_sender (heap s4 a) = Some ch" using assms(2) by (simp add: s2_def)
  then have "log (finish env a r c s) = Responded ch r # log s4" by (simp add: fin channel_send_def)
  then show ?thesis using ev es by (intro exI [of _ es] exI [of _ ev]) simp
qed

text \<open>A registered, unfinished task with two done callbacks.\<close>

definition sample_watched :: event_loop where
  "sample_watched =
     modify 0 (\<lambda>st. st\<lparr>registered_with_asyncio := True,
                       done_callbacks := [(PyRef 20 None, PyRef 11 None), (PyRef 21 None, PyRef 11 None)]\<rparr>)
       sample_loop"

theorem response_released_last_witness:
  "\<exists>es ev. log (finish sample_env 0 no_content (Returned PyNone) sample_watched) =
      Responded 0 no_content # es @ ev @ log sample_watched \<and>
    List.map_filter (fired 0) (rev es) = [(PyRef 20 None, PyRef 11 None), (PyRef 21 None, PyRef 11 None)]"
proof -
  have "\<not> finished (lock_state sample_watched 0)" "response_sender (heap sample_watched 0) = Some 0"
    "done_callbacks (lock_state sample_watched 0) = [(PyRef 20 None, PyRef 11 None), (PyRef 21 None, PyRef 11 None)]"
    by code_simp+
  moreover have "\<forall>l ctx. e_set_context sample_env l ctx = None" by (simp add: sample_env_def)
  ultimately show ?thesis
    using response_released_last [of sample_watched 0 0 sample_env no_content "Returned PyNone"] by auto
qed

section \<open>Task and Future protocol\<close>

lemma future_cancel_state:
  "future_cancel env f msg s = (r, s') \<Longrightarrow> heap s' = heap s \<and> (r \<longleftrightarrow> e_future_cancel env (log s) f msg = Inr (Inr True))"
  by (auto simp: future_cancel_def split: sum.splits)

lemma cancel_unfinished:
  assumes "\<not> finished (lock_state s a)" "cancel env a msg s = (accepted, s')"
  shows "accepted" "cancelling a s' = cancelling a s + 1" "cancel_message (lock_state s' a) = msg"
    "must_cancel (lock_state s' a) \<or>
     (\<exists>f l. waiting_on (lock_state s a) = Some f \<and> e_future_cancel env l f msg = Inr (Inr True))"
proof -
  let ?st = "lock_state s a"
  let ?s1 = "set_state a (?st\<lparr>cancel_requests := cancel_requests ?st + 1, cancel_message := msg\<rparr>) s"
  obtain absorbed s2 where a: "(case waiting_on ?st of Some f \<Rightarrow> future_cancel env f msg ?s1
      | None \<Rightarrow> (False, ?s1)) = (absorbed, s2)" by fastforce
  have h: "heap s2 = heap ?s1" and
    ab: "absorbed \<Longrightarrow> \<exists>f l. waiting_on ?st = Some f \<and> e_future_cancel env l f msg = Inr (Inr True)"
    using a future_cancel_state by (fastforce split: option.splits)+
  have l: "lock_state s2 a = lock_state ?s1 a" by (simp add: lock_state_def h)
  have "cancel env a msg s = (True, if absorbed then s2 else modify a (\<lambda>st. st\<lparr>must_cancel := True\<rparr>) s2)"
    using assms(1) a by (simp add: cancel_def Let_def l)
  then show "accepted" "cancelling a s' = cancelling a s + 1" "cancel_message (lock_state s' a) = msg"
    "must_cancel (lock_state s' a) \<or>
     (\<exists>f l. waiting_on (lock_state s a) = Some f \<and> e_future_cancel env l f msg = Inr (Inr True))"
    using assms(2) ab l by (auto simp: cancelling_def)
qed

lemma uncancel_spec:
  assumes "uncancel a s = (n, s')"
  shows "n = (if cancelling a s = 0 then 0 else cancelling a s - 1)" "cancelling a s' = n"
    "must_cancel (lock_state s' a) \<longleftrightarrow> must_cancel (lock_state s a) \<and> n \<noteq> 0"
proof -
  have "x < (1 :: u32) \<longleftrightarrow> x = 0" for x by (rule word_less_1)
  then show n: "n = (if cancelling a s = 0 then 0 else cancelling a s - 1)"
    using assms by (simp add: uncancel_def Let_def saturating_sub_def cancelling_def split: if_splits)
  show "cancelling a s' = n" using assms by (auto simp: uncancel_def Let_def cancelling_def)
  show "must_cancel (lock_state s' a) \<longleftrightarrow> must_cancel (lock_state s a) \<and> n \<noteq> 0"
    using assms by (auto simp: uncancel_def Let_def split: if_splits)
qed

text \<open>
  C18.  \<open>cancel()\<close> answers true exactly when the task is not finished.  Then the request is counted
  (modulo \<open>2\<^sup>3\<^sup>2\<close>) and its message kept, and it is never lost: either the awaited future
  took the cancellation over, or it is recorded for the next turn.  On a finished task nothing
  changes.\<close>

theorem cancel_never_lost:
  assumes "cancel env a msg s = (accepted, s')"
  shows "(accepted \<longleftrightarrow> \<not> task_done a s) \<and>
    (if task_done a s then s' = s
     else cancelling a s' = cancelling a s + 1 \<and> cancel_message (lock_state s' a) = msg \<and>
       (must_cancel (lock_state s' a) \<or>
        (\<exists>f l. waiting_on (lock_state s a) = Some f \<and> e_future_cancel env l f msg = Inr (Inr True))))"
proof (cases "finished (lock_state s a)")
  case True
  with assms show ?thesis by (auto simp: cancel_def task_done_def)
next
  case False
  show ?thesis using cancel_unfinished [OF False assms] False by (simp add: task_done_def)
qed

theorem cancel_never_lost_witness:
  "cancelling 0 (snd (cancel sample_env 0 None sample_loop)) = 1 \<and>
   must_cancel (lock_state (snd (cancel sample_env 0 None sample_loop)) 0)"
proof -
  have "cancelling 0 sample_loop = 0" "waiting_on (lock_state sample_loop 0) = None" "\<not> task_done 0 sample_loop"
    by code_simp+
  then show ?thesis
    using cancel_never_lost [OF surjective_pairing, of sample_env 0 None sample_loop] by auto
qed

text \<open>
  C19.  \<open>uncancel()\<close> undoes one \<open>cancel()\<close> and never goes below zero; the pending cancellation is
  withdrawn exactly when no request is left.  After a \<open>cancel()\<close> of an unfinished task that did not
  wrap the counter, the count is what it was before.\<close>

theorem uncancel_undoes_cancel:
  assumes "\<not> task_done a s" "cancelling a s \<noteq> - 1" "cancel env a msg s = (accepted, s1)"
    "uncancel a s1 = (n, s2)"
  shows "n = cancelling a s \<and> cancelling a s2 = n \<and>
    (must_cancel (lock_state s2 a) \<longleftrightarrow> must_cancel (lock_state s1 a) \<and> n \<noteq> 0) \<and>
    fst (uncancel a s2) = (if n = 0 then 0 else n - 1)"
proof -
  have "cancelling a s1 = cancelling a s + 1"
    using cancel_unfinished(2) [OF _ assms(3)] assms(1) by (simp add: task_done_def)
  moreover have "cancelling a s + 1 \<noteq> 0" using assms(2) by (simp add: add_eq_0_iff2)
  ultimately show ?thesis
    using uncancel_spec [OF assms(4)] uncancel_spec(1) [OF surjective_pairing, of a s2] by simp
qed

theorem uncancel_undoes_cancel_witness:
  "fst (uncancel 0 (snd (cancel sample_env 0 None sample_loop))) = 0 \<and>
   \<not> must_cancel (lock_state (snd (uncancel 0 (snd (cancel sample_env 0 None sample_loop)))) 0)"
proof -
  have "\<not> task_done 0 sample_loop" "cancelling 0 sample_loop = 0" by code_simp+
  then show ?thesis
    using uncancel_undoes_cancel [OF _ _ surjective_pairing surjective_pairing, of 0 sample_loop sample_env None]
    by simp
qed

text \<open>
  C32.  A done callback is not lost: when \<open>add_done_callback\<close> returns normally, the callback is
  either the last of the callbacks kept for the end of the task, or, on a finished task, has been
  handed to the loop at once.  When it raises, the callbacks kept are as they were.\<close>

theorem done_callback_kept_or_scheduled:
  assumes "add_done_callback env a cb ctx s = (r, s')"
  shows "case r of
      Inl e \<Rightarrow> done_callbacks (lock_state s' a) = done_callbacks (lock_state s a)
    | Inr _ \<Rightarrow>
        (\<exists>c. (ctx = None \<or> ctx = Some c) \<and>
           (if task_done a s
            then done_callbacks (lock_state s' a) = done_callbacks (lock_state s a) \<and>
              ScheduledCallback cb c a True \<in> set (log s')
            else done_callbacks (lock_state s' a) = done_callbacks (lock_state s a) @ [(cb, c)]))"
  using assms
  by (cases ctx; cases "finished (lock_state s a)")
    (auto simp: add_done_callback_def task_done_def fire_callback_def split: sum.splits option.splits)

theorem done_callback_kept_or_scheduled_witness:
  "done_callbacks (lock_state (snd (add_done_callback sample_env 0 (PyRef 20 None) (Some (PyRef 11 None)) sample_loop)) 0)
     = [(PyRef 20 None, PyRef 11 None)]"
proof -
  let ?r = "add_done_callback sample_env 0 (PyRef 20 None) (Some (PyRef 11 None)) sample_loop"
  have "fst ?r = Inr ()" "\<not> task_done 0 sample_loop" "done_callbacks (lock_state sample_loop 0) = []"
    by code_simp+
  then show ?thesis
    using done_callback_kept_or_scheduled [OF surjective_pairing,
        of sample_env 0 "PyRef 20 None" "Some (PyRef 11 None)" sample_loop] by simp
qed

text \<open>
  C33.  Awaiting a future of another loop is refused without touching it: the coroutine is to get
  the error that explains it, the task does not wait on the future, and neither its blocking flag
  nor its callbacks are changed.\<close>

theorem foreign_future_refused:
  assumes "e_blocking env (log s) future = Inr (Inr True)"
    "e_get_loop env (ReadBlocking future # log s) future = Inr other" "other \<noteq> get_loop s"
  shows "park_on_future env a future s =
    (BadYield cross_loop_error, s\<lparr>log := AskedLoop future # ReadBlocking future # log s\<rparr>)"
  using assms by (simp add: park_on_future_def Let_def emit_def get_loop_def)

theorem foreign_future_refused_witness:
  "park_on_future sample_env 0 (PyRef 30 None) (new_loop (PyRef 5 None)) =
    (BadYield cross_loop_error,
     (new_loop (PyRef 5 None))\<lparr>log := [AskedLoop (PyRef 30 None), ReadBlocking (PyRef 30 None)]\<rparr>)"
  using foreign_future_refused [of sample_env "new_loop (PyRef 5 None)" "PyRef 30 None" "PyRef 0 None" 0]
  by (simp add: sample_env_def new_loop_def get_loop_def)

end
