(* ===== verification/Pool.thy ===== *)
theory Pool
  imports TaskContract
begin

text \<open>
  \<open>EventLoopPool\<close> of \<open>crates/dispatch/src/lib.rs\<close>: several event loops and a rotating scan that
  sends each request to the least loaded one.  Counters are machine words; the arithmetic wraps as in
  a release build.
\<close>

section \<open>The pool\<close>

record event_loop_pool =
  loops :: "event_loop list"
  scan_start_index :: usize

definition no_loops_error :: pyobj where
  "no_loops_error =
     new_err ValueError
       (lit ''loop_threads must be at least 1 (use None to let Rayo pick: one per core on free-threaded builds, one total on GIL builds)'')"

definition loop_name :: "nat \<Rightarrow> rstr" where
  "loop_name i = lit ''rayo-loop-'' @ map of_char (show_nat i)"

fun start_loops :: "start_env \<Rightarrow> nat list \<Rightarrow> pyobj + event_loop list" where
  "start_loops senv [] = Inr []"
| "start_loops senv (i # is) =
     (case loop_start senv (loop_name i) of
        Inl e \<Rightarrow> Inl e
      | Inr l \<Rightarrow>
          (case start_loops senv is of
             Inl e \<Rightarrow> Inl e
           | Inr ls \<Rightarrow> Inr (l # ls)))"

definition pool_start :: "start_env \<Rightarrow> nat \<Rightarrow> pyobj + event_loop_pool" where
  "pool_start senv size_arg =
     (if size_arg = 0 then Inl no_loops_error
      else case start_loops senv [0..<size_arg] of
             Inl e \<Rightarrow> Inl e
           | Inr ls \<Rightarrow> Inr \<lparr>loops = ls, scan_start_index = 0\<rparr>)"

text \<open>The loops a failed start had started already; their threads keep running.\<close>

fun started_before_failure :: "start_env \<Rightarrow> nat list \<Rightarrow> event_loop list" where
  "started_before_failure senv [] = []"
| "started_before_failure senv (i # is) =
     (case loop_start senv (loop_name i) of
        Inl e \<Rightarrow> []
      | Inr l \<Rightarrow> l # started_before_failure senv is)"

definition leftover_loops :: "start_env \<Rightarrow> nat \<Rightarrow> event_loop list" where
  "leftover_loops senv size_arg = started_before_failure senv [0..<size_arg]"

definition pool_size :: "event_loop_pool \<Rightarrow> nat" where
  "pool_size p = length (loops p)"

definition total_in_flight :: "event_loop_pool \<Rightarrow> usize" where
  "total_in_flight p = sum_list (map in_flight_count (loops p))"

text \<open>
  The scan of \<open>schedule\<close>: the offsets still to try, the loop chosen so far and its load.  An idle
  loop ends it.
\<close>

fun scan :: "event_loop list \<Rightarrow> usize \<Rightarrow> nat list \<Rightarrow> nat \<Rightarrow> usize \<Rightarrow> nat" where
  "scan ls scan_start [] chosen_index lowest_load = chosen_index"
| "scan ls scan_start (scan_offset # offsets) chosen_index lowest_load =
     (if lowest_load = 0 then chosen_index
      else
        let candidate_index = unat ((scan_start + of_nat scan_offset) mod of_nat (length ls));
            candidate_load = in_flight_count (ls ! candidate_index)
        in if candidate_load < lowest_load
           then scan ls scan_start offsets candidate_index candidate_load
           else scan ls scan_start offsets chosen_index lowest_load)"

definition choose_loop :: "event_loop_pool \<Rightarrow> nat" where
  "choose_loop p =
     (let ls = loops p; first = unat (scan_start_index p mod of_nat (length ls))
      in scan ls (scan_start_index p) [1..<length ls] first (in_flight_count (ls ! first)))"

definition pool_schedule ::
    "(nat \<Rightarrow> py_env) \<Rightarrow> pyobj \<Rightarrow> pyobj \<Rightarrow> event_loop_pool \<Rightarrow> (nat \<times> dispatched_request) \<times> event_loop_pool" where
  "pool_schedule env h kwargs p =
     (let i = choose_loop p;
          (request, l) = schedule (env i) h kwargs (loops p ! i)
      in ((i, request), \<lparr>loops = (loops p)[i := l], scan_start_index = scan_start_index p + 1\<rparr>))"

definition pool_cancel_in_flight :: "(nat \<Rightarrow> py_env) \<Rightarrow> event_loop_pool \<Rightarrow> event_loop_pool" where
  "pool_cancel_in_flight env p =
     p\<lparr>loops := map (\<lambda>(i, l). cancel_in_flight (env i) l) (enumerate 0 (loops p))\<rparr>"

definition pool_stop ::
    "(nat \<Rightarrow> py_env) \<Rightarrow> (nat \<Rightarrow> event_loop \<Rightarrow> event_loop) \<Rightarrow> event_loop_pool \<Rightarrow> event_loop_pool" where
  "pool_stop env running p =
     p\<lparr>loops := map (\<lambda>(i, l). stop (env i) (running i) l) (enumerate 0 (loops p))\<rparr>"

section \<open>The scan\<close>

definition load :: "event_loop_pool \<Rightarrow> nat \<Rightarrow> usize" where
  "load p i = in_flight_count (loops p ! i)"

definition candidate :: "nat \<Rightarrow> usize \<Rightarrow> nat \<Rightarrow> nat" where
  "candidate n scan_start off = unat ((scan_start + of_nat off) mod of_nat n)"

lemma unat_mod_less: "0 < n \<Longrightarrow> n < 2 ^ 64 \<Longrightarrow> unat ((w :: usize) mod of_nat n) < n"
  by (simp add: unat_mod unat_of_nat take_bit_nat_eq_self)

lemma candidate_less: "0 < n \<Longrightarrow> n < 2 ^ 64 \<Longrightarrow> candidate n st off < n"
  unfolding candidate_def by (rule unat_mod_less)

lemma candidate_no_wrap:
  assumes "n < 2 ^ 64" "off < n" "unat (st :: usize) + n \<le> 2 ^ 64"
  shows "candidate n st off = (unat st + off) mod n"
proof -
  have "unat (of_nat off :: usize) = off" "unat (of_nat n :: usize) = n"
    using assms by (simp_all add: unat_of_nat take_bit_nat_eq_self)
  moreover have "unat st + off < 2 ^ 64" using assms by simp
  ultimately show ?thesis
    by (simp add: candidate_def unat_mod unat_add_lem [THEN iffD1])
qed

lemma scan_minimal:
  assumes "lowest = in_flight_count (ls ! chosen)"
  shows "scan ls st offs chosen lowest \<in> insert chosen (candidate (length ls) st ` set offs) \<and>
    (\<forall>j \<in> insert chosen (candidate (length ls) st ` set offs).
       in_flight_count (ls ! scan ls st offs chosen lowest) \<le> in_flight_count (ls ! j))"
  using assms
proof (induction offs arbitrary: chosen lowest)
  case (Cons off offs)
  show ?case
  proof (cases "lowest = 0")
    case True
    with Cons.prems show ?thesis by simp
  next
    case False
    let ?c = "candidate (length ls) st off"
    show ?thesis
    proof (cases "in_flight_count (ls ! ?c) < lowest")
      case True
      then show ?thesis
        using False Cons.IH [of "in_flight_count (ls ! ?c)" ?c] Cons.prems
        by (auto simp: Let_def candidate_def [symmetric] intro: order_trans less_imp_le)
    next
      case nless: False
      then show ?thesis
        using False Cons.IH [OF Cons.prems] Cons.prems
        by (auto simp: Let_def candidate_def [symmetric] not_less intro: order_trans)
    qed
  qed
qed simp

lemma offsets_cover: "j < n \<Longrightarrow> \<exists>off < n. (m + off) mod n = (j :: nat)"
proof (intro exI conjI)
  assume j: "j < n"
  let ?off = "(j + (n - m mod n)) mod n"
  show "?off < n" using j by simp
  have "(m + ?off) mod n = (m mod n + (j + (n - m mod n))) mod n"
    by (simp only: mod_add_left_eq mod_add_right_eq)
  also have "m mod n + (j + (n - m mod n)) = j + n" using mod_less_divisor [of n m] j by linarith
  finally show "(m + ?off) mod n = j" using j by simp
qed

lemma choose_loop_scan:
  "choose_loop p = scan (loops p) (scan_start_index p) [1..<length (loops p)]
     (candidate (length (loops p)) (scan_start_index p) 0)
     (in_flight_count (loops p ! candidate (length (loops p)) (scan_start_index p) 0))"
  by (simp add: choose_loop_def Let_def candidate_def)

lemma visited:
  assumes "loops p \<noteq> []"
  shows "insert (candidate n st 0) (candidate n st ` set [1..<length (loops p)]) =
    candidate n st ` {..<length (loops p)}"
proof -
  have "{..<length (loops p)} = insert 0 (set [1..<length (loops p)])" using assms by (auto simp: neq_Nil_conv)
  then show ?thesis by simp
qed

lemma choose_loop_minimal:
  assumes "loops p \<noteq> []"
  shows "choose_loop p \<in> candidate (length (loops p)) (scan_start_index p) ` {..<length (loops p)} \<and>
    (\<forall>j \<in> candidate (length (loops p)) (scan_start_index p) ` {..<length (loops p)}.
       load p (choose_loop p) \<le> load p j)"
  using scan_minimal [OF refl, of "loops p" "scan_start_index p" "[1..<length (loops p)]"
      "candidate (length (loops p)) (scan_start_index p) 0"]
  unfolding visited [OF assms] choose_loop_scan [symmetric] load_def .

lemma choose_loop_less:
  assumes "loops p \<noteq> []" "length (loops p) < 2 ^ 64"
  shows "choose_loop p < length (loops p)"
  using choose_loop_minimal [OF assms(1)] candidate_less assms by auto

lemma pool_schedule_eq:
  assumes "pool_schedule env h kwargs p = ((i, request), p')"
  shows "i = choose_loop p" "schedule (env i) h kwargs (loops p ! i) = (request, snd (schedule (env i) h kwargs (loops p ! i)))"
    "loops p' = (loops p)[i := snd (schedule (env i) h kwargs (loops p ! i))]"
    "scan_start_index p' = scan_start_index p + 1"
  using assms by (auto simp: pool_schedule_def Let_def split: prod.splits)

section \<open>Pools of reachable loops\<close>

definition pool_reachable :: "(nat \<Rightarrow> py_env) \<Rightarrow> event_loop_pool \<Rightarrow> bool" where
  "pool_reachable env p \<longleftrightarrow> (\<forall>i < length (loops p). reachable (env i) (loops p ! i))"

lemma new_loop_reachable: "reachable env (new_loop l)"
  unfolding reachable_def by blast

lemma loop_start_new: "loop_start senv name = Inr s \<Longrightarrow> \<exists>l. s = new_loop l"
  by (auto simp: loop_start_def split: option.splits sum.splits)

lemma start_loops_new:
  "start_loops senv is = Inr ls \<Longrightarrow> length ls = length is \<and> (\<forall>s \<in> set ls. \<exists>l. s = new_loop l)"
  by (induction "is" arbitrary: ls) (auto split: sum.splits dest: loop_start_new)

lemma loops_in_flight:
  "(\<And>s. s \<in> set ls \<Longrightarrow> loop_inv s) \<Longrightarrow>
     sum_list (map in_flight_count ls) = of_nat (sum_list (map (\<lambda>s. length (live_tasks s)) ls))"
  by (induction ls) (simp_all add: in_flight_count_def loop_inv_def owed_def)

lemma nothing_in_flight:
  assumes "\<And>s. s \<in> set ls \<Longrightarrow> loop_inv s" "\<And>s. s \<in> set ls \<Longrightarrow> live_tasks s = []"
  shows "sum_list (map in_flight_count ls) = 0"
proof -
  have z: "sum_list (map (\<lambda>s. length (live_tasks s)) ls) = 0" using assms(2) by (simp add: sum_list_eq_0_iff)
  have "sum_list (map in_flight_count ls) = of_nat (sum_list (map (\<lambda>s. length (live_tasks s)) ls))"
    by (rule loops_in_flight) (rule assms(1))
  then show ?thesis unfolding z by simp
qed

lemma pool_reachable_inv: "pool_reachable env p \<Longrightarrow> s \<in> set (loops p) \<Longrightarrow> loop_inv s"
  by (auto simp: pool_reachable_def in_set_conv_nth dest: reachable_inv)

lemma pool_schedule_reachable:
  assumes "pool_reachable env p" "loops p \<noteq> []" "length (loops p) < 2 ^ 64"
    "\<And>i. i < length (loops p) \<Longrightarrow> fresh_address (env i) (loops p ! i)"
    "pool_schedule env h kwargs p = ((i, request), p')"
  shows "i < length (loops p)" "length (loops p') = length (loops p)" "pool_reachable env p'"
    "response_receiver request < next_channel (loops p' ! i)"
proof -
  note eq = pool_schedule_eq [OF assms(5)]
  show i: "i < length (loops p)" using choose_loop_less [OF assms(2,3)] eq(1) by simp
  show "length (loops p') = length (loops p)" by (simp add: eq(3))
  have "reachable (env i) (snd (schedule (env i) h kwargs (loops p ! i)))"
    using assms(1,4) i loop_step.Schedule reachable_steps unfolding pool_reachable_def by blast
  then show "pool_reachable env p'"
    using assms(1) i by (auto simp: pool_reachable_def eq(3) nth_list_update)
  have "request = fst (schedule (env i) h kwargs (loops p ! i))" using eq(2) by (metis fst_conv)
  then show "response_receiver request < next_channel (loops p' ! i)"
    using i schedule_channel [of "env i" h kwargs "loops p ! i"] by (simp add: eq(3))
qed

lemma stopped_loop:
  assumes "pool_reachable env p" "\<forall>i. runs_loop (env i) (running i)" "s \<in> set (loops (pool_stop env running p))"
  shows "loop_inv s" "live_tasks s = []" "\<not> thread_running s"
proof -
  let ?ls = "loops (pool_stop env running p)"
  have l: "length ?ls = length (loops p)" by (simp add: pool_stop_def)
  obtain i where i: "i < length (loops p)" "s = ?ls ! i" using assms(3) unfolding in_set_conv_nth l by blast
  then have s: "s = stop (env i) (running i) (loops p ! i)" by (simp add: pool_stop_def nth_enumerate_eq)
  have "loop_inv (loops p ! i)" by (rule pool_reachable_inv [OF assms(1) nth_mem [OF i(1)]])
  then show "loop_inv s" "live_tasks s = []" "\<not> thread_running s"
    unfolding s using stop_inv assms(2) by blast+
qed

lemma stopped_stop:
  assumes "\<And>s. s \<in> set (loops p) \<Longrightarrow> live_tasks s = [] \<and> \<not> thread_running s"
  shows "pool_stop env running p = p"
proof -
  have "stop (env i) (running i) s = s" if "s \<in> set (loops p)" for i s
    using assms [OF that] by (simp add: stop_def drain_registry_def)
  then have "map (\<lambda>(i, l). stop (env i) (running i) l) (enumerate 0 (loops p)) = loops p"
    by (intro nth_equalityI) (simp_all add: nth_enumerate_eq)
  then show ?thesis by (simp add: pool_stop_def)
qed

lemma pool_cancel_reachable:
  assumes "pool_reachable env p"
  shows "pool_reachable env (pool_cancel_in_flight env p)"
proof -
  have "reachable (env i) (cancel_in_flight (env i) (loops p ! i))" if "i < length (loops p)" for i
    using assms that reachable_steps loop_step.CancelInFlight unfolding pool_reachable_def by blast
  then show ?thesis by (simp add: pool_reachable_def pool_cancel_in_flight_def nth_enumerate_eq)
qed

section \<open>Properties\<close>

text \<open>
  C20.  The scan of \<open>schedule\<close> always picks an existing loop, and, as long as the rotating counter
  is not about to wrap, one whose load no other loop is below.\<close>

theorem schedule_picks_least_loaded:
  assumes "loops p \<noteq> []" "pool_size p < 2 ^ 64" "pool_schedule env h kwargs p = ((i, request), p')"
  shows "i < pool_size p \<and>
    (unat (scan_start_index p) + pool_size p \<le> 2 ^ 64 \<longrightarrow> (\<forall>j. j < pool_size p \<longrightarrow> load p i \<le> load p j))"
proof -
  let ?n = "length (loops p)" and ?st = "scan_start_index p"
  have i: "i = choose_loop p" using pool_schedule_eq(1) [OF assms(3)] .
  have "j \<in> candidate ?n ?st ` {..<?n}" if j: "j < ?n" and w: "unat ?st + ?n \<le> 2 ^ 64" for j
  proof -
    obtain off where off: "off < ?n" "(unat ?st + off) mod ?n = j" using offsets_cover [OF j] by blast
    then have "candidate ?n ?st off = j" using candidate_no_wrap [of ?n off ?st] w assms(2) by (simp add: pool_size_def)
    then show ?thesis using off by blast
  qed
  then show ?thesis
    using choose_loop_minimal [OF assms(1)] choose_loop_less [OF assms(1)] assms(2)
    unfolding i pool_size_def by blast
qed

text \<open>
  C22.  Starting a pool: asking for no loops is an error at once; otherwise either some loop failed to
  start, or there are as many loops as asked for, nothing is in flight, and every loop is reachable.\<close>

theorem pool_start_outcome:
  "(pool_start senv 0 = Inl no_loops_error) \<and>
   (case pool_start senv n of
      Inl _ \<Rightarrow> True
    | Inr p \<Rightarrow> pool_size p = n \<and> 0 < n \<and> total_in_flight p = 0 \<and> pool_reachable env p)"
proof -
  have "pool_size p = n \<and> 0 < n \<and> total_in_flight p = 0 \<and> pool_reachable env p" if p: "pool_start senv n = Inr p" for p
  proof -
    obtain ls where ls: "start_loops senv [0..<n] = Inr ls" "p = \<lparr>loops = ls, scan_start_index = 0\<rparr>" "0 < n"
      using p by (auto simp: pool_start_def split: if_splits sum.splits)
    note new = start_loops_new [OF ls(1)]
    have "sum_list (map in_flight_count ls) = 0"
    proof (rule nothing_in_flight)
      show "loop_inv s" if "s \<in> set ls" for s using new that new_loop_inv by metis
      show "live_tasks s = []" if "s \<in> set ls" for s using new that by (fastforce simp: new_loop_def)
    qed
    moreover have "reachable (env i) (ls ! i)" if "i < length ls" for i
      using new nth_mem [OF that] new_loop_reachable by metis
    ultimately show ?thesis
      using ls new by (simp add: pool_size_def total_in_flight_def pool_reachable_def)
  qed
  moreover have "pool_start senv 0 = Inl no_loops_error" by (simp add: pool_start_def)
  ultimately show ?thesis by (cases "pool_start senv n") simp_all
qed

text \<open>
  C21.  The pool's gauge is the number of live tasks over all loops (modulo its width), and stopping
  the pool brings it to zero with every registry empty.\<close>

theorem pool_gauge_and_stop:
  assumes "pool_reachable env p" "\<forall>i. runs_loop (env i) (running i)"
  shows "total_in_flight p = of_nat (sum_list (map (\<lambda>s. length (live_tasks s)) (loops p))) \<and>
    total_in_flight (pool_stop env running p) = 0 \<and>
    (\<forall>s. s \<in> set (loops (pool_stop env running p)) \<longrightarrow> live_tasks s = [])"
proof -
  let ?ls = "loops (pool_stop env running p)"
  have "sum_list (map in_flight_count ?ls) = 0"
    by (rule nothing_in_flight) (use stopped_loop [OF assms] in blast)+
  moreover have "sum_list (map in_flight_count (loops p)) =
      of_nat (sum_list (map (\<lambda>s. length (live_tasks s)) (loops p)))"
    by (rule loops_in_flight) (rule pool_reachable_inv [OF assms(1)])
  ultimately show ?thesis using stopped_loop(2) [OF assms] by (simp add: total_in_flight_def)
qed

text \<open>Two loops of which the first is busy.\<close>

definition sample_pool :: event_loop_pool where
  "sample_pool = \<lparr>loops = [sample_loop, new_loop (PyRef 1 None)], scan_start_index = 0\<rparr>"

lemma sample_pool_reachable: "pool_reachable (\<lambda>_. sample_env) sample_pool"
  by (auto simp: pool_reachable_def sample_pool_def less_Suc_eq sample_loop_reachable new_loop_reachable)

theorem schedule_picks_least_loaded_witness:
  "\<exists>i request p'. pool_schedule (\<lambda>_. sample_env) (PyRef 1 None) (PyDict []) sample_pool = ((i, request), p') \<and>
     i < 2 \<and> load sample_pool i \<le> load sample_pool 1"
proof -
  obtain i request p' where s:
    "pool_schedule (\<lambda>_. sample_env) (PyRef 1 None) (PyDict []) sample_pool = ((i, request), p')"
    by (metis prod.exhaust)
  have n: "loops sample_pool \<noteq> []" "pool_size sample_pool = 2" "unat (scan_start_index sample_pool) = 0"
    by (simp_all add: sample_pool_def pool_size_def)
  show ?thesis using schedule_picks_least_loaded [OF n(1) _ s] n s by auto
qed

theorem pool_gauge_and_stop_witness:
  "total_in_flight sample_pool = 1 \<and>
   total_in_flight (pool_stop (\<lambda>_. sample_env) (\<lambda>_. id) sample_pool) = 0"
proof -
  have "\<forall>i :: nat. runs_loop sample_env id" by (simp add: runs_loop_def)
  moreover have "sum_list (map (\<lambda>s. length (live_tasks s)) (loops sample_pool)) = 1"
    by (simp add: sample_pool_def new_loop_def)
  ultimately show ?thesis
    using pool_gauge_and_stop [OF sample_pool_reachable, of "\<lambda>_. id"] by simp
qed

end
