(* ===== verification/Answers.thy ===== *)
theory Answers
  imports TaskContract
begin

text \<open>
  What a channel can be answered with.  Over every run of a loop, whatever Python code does, a response
  sent on a channel is the opaque internal error or the rendering of a value a handler returned.
\<close>

definition handler_answer :: "handler_response \<Rightarrow> bool" where
  "handler_answer r \<longleftrightarrow> r = internal_error \<or> (\<exists>v. r = snd (response_from_return_value v))"

fun answer_event :: "event \<Rightarrow> bool" where
  "answer_event (Responded _ r) = handler_answer r"
| "answer_event _ = True"

definition answers_ok :: "event_loop \<Rightarrow> bool" where
  "answers_ok s \<longleftrightarrow> list_all answer_event (log s)"

lemma answer_quiet [simp]: "\<not> channel_event e \<Longrightarrow> answer_event e"
  by (cases e) simp_all

lemma answers_extend:
  assumes "log s' = es @ log s" "list_all (\<lambda>e. \<not> channel_event e) es" "answers_ok s"
  shows "answers_ok s'"
proof -
  have "list_all answer_event es" using assms(2) by (rule list.pred_mono_strong) simp
  with assms(1,3) show ?thesis by (simp add: answers_ok_def)
qed

lemma answers_frame: "frame a s s' \<Longrightarrow> answers_ok s \<Longrightarrow> answers_ok s'"
  using answers_extend by (auto simp: frame_def extends_log_def)

lemma answers_quiet: "quiet s s' \<Longrightarrow> answers_ok s \<Longrightarrow> answers_ok s'"
  using answers_frame quiet_silent silent_def by blast

lemma answers_emit: "answer_event e \<Longrightarrow> answers_ok s \<Longrightarrow> answers_ok (emit e s)"
  by (simp add: answers_ok_def)

lemma answers_send: "handler_answer r \<Longrightarrow> answers_ok s \<Longrightarrow> answers_ok (channel_send a r s)"
  by (auto simp: channel_send_def answers_ok_def split: option.split)

lemma answers_notify:
  "answers_ok s \<Longrightarrow> answers_ok (unregister env a s)"
  "answers_ok s \<Longrightarrow> answers_ok (fire_done_callbacks env a cbs s)"
proof -
  have n: "list_all (\<lambda>e. \<not> channel_event e) es" if "list_all (notify_event a) es" for es
    using that by (rule list.pred_mono_strong) simp
  show "answers_ok (unregister env a s)" if "answers_ok s"
  proof -
    obtain es where es: "list_all (notify_event a) es" "unregister env a s = s\<lparr>log := es @ log s\<rparr>"
      using unregister_log by blast
    show ?thesis by (rule answers_extend [OF _ n [OF es(1)] that]) (simp add: es(2))
  qed
  show "answers_ok (fire_done_callbacks env a cbs s)" if "answers_ok s"
  proof -
    obtain es where es: "list_all (notify_event a) es" "fire_done_callbacks env a cbs s = s\<lparr>log := es @ log s\<rparr>"
      using fire_done_callbacks_log by blast
    show ?thesis by (rule answers_extend [OF _ n [OF es(1)] that]) (simp add: es(2))
  qed
qed

lemma answers_finish:
  assumes "handler_answer r" "answers_ok s"
  shows "answers_ok (finish env a r c s)"
proof -
  have "answers_ok ((set_state a st s)\<lparr>live_tasks := as\<rparr>)" for st as using assms(2) by (simp add: answers_ok_def)
  then show ?thesis
    unfolding finish_def Let_def using assms by (auto intro!: answers_send answers_notify)
qed

lemma rendered_answer: "rendered r k \<Longrightarrow> handler_answer r"
  by (cases k) (auto simp: handler_answer_def)

lemma answers_ends:
  assumes "ends env a s s'" "answers_ok s"
  shows "answers_ok s'"
proof -
  obtain s1 r k where s1: "silent a s s1" "rendered r k" "log_grows (finish env a r k s1) s'"
    using assms(1) unfolding ends_def by blast
  have "answers_ok s1" using answers_frame s1(1) assms(2) silent_def by blast
  then have "answers_ok (finish env a r k s1)" using answers_finish rendered_answer [OF s1(2)] by blast
  then show ?thesis using answers_frame log_grows_silent [OF s1(3)] silent_def by blast
qed

lemma answers_call_task:
  assumes "loop_inv s" "0 < pending s a" "answers_ok s"
  shows "answers_ok (call_task env a fut s)"
proof (cases "finished (lock_state s a)")
  case True
  with assms(3) show ?thesis by (simp add: call_task_def Let_def answers_emit)
next
  case False
  then have "context_ok (lock_state s a)"
    using assms loop_inv_live(2) by (auto simp: loop_inv_def wakes_ok_def)
  then have "turn_ok env a (emit (TurnStarted a) s) (call_task env a fut s)"
    using False by (intro call_task_turn) (simp_all add: context_ok_def)
  moreover have "answers_ok (emit (TurnStarted a) s)" using assms(3) by (simp add: answers_emit)
  ultimately show ?thesis
    unfolding turn_ok_def yields_def using answers_frame answers_ends completes_ends by blast
qed

lemma answers_dispose_all: "answers_ok s \<Longrightarrow> answers_ok (dispose_all env as s)"
proof (induction as arbitrary: s)
  case (Cons a as)
  have "ends env a s (dispose env a s)" unfolding dispose_def by (rule abort_ends) simp
  then show ?case using answers_ends Cons by auto
qed simp

lemma answers_schedule_cancels: "answers_ok s \<Longrightarrow> answers_ok (schedule_cancels env as s)"
  by (induction as arbitrary: s) (simp_all add: call_soon_threadsafe_def Let_def answers_emit)

lemma answers_step:
  assumes "loop_inv s" "answers_ok s" "loop_step env s s'"
  shows "answers_ok s'"
  using assms(3)
proof cases
  case (Turn a fut)
  then show ?thesis using answers_call_task assms(1,2) by simp
next
  case (CancelCallback a)
  then show ?thesis using answers_quiet [OF op_cancel.op_quiet] assms(2) by simp
next
  case (PythonCode k)
  then show ?thesis using answers_quiet [OF script.op_quiet] assms(2) by simp
next
  case (Schedule h kwargs)
  then show ?thesis using assms(2)
    by (auto simp: schedule_cases answers_ok_def opened_def handler_answer_def split: sum.split option.split)
next
  case (DropRequest r)
  then show ?thesis using assms(2)
    by (auto simp: drop_request_def call_soon_threadsafe_def Let_def intro: answers_emit split: option.split)
next
  case CancelInFlight
  then show ?thesis using assms(2) by (simp add: cancel_in_flight_def answers_schedule_cancels)
next
  case (Deallocate a)
  then show ?thesis using assms(2)
    by (auto simp: deallocate_def channel_drop_def answers_ok_def split: option.split)
next
  case RequestStop
  then show ?thesis using assms(2)
    by (auto simp: request_stop_def Let_def call_soon_threadsafe_def print_error_def answers_ok_def
        split: option.split)
next
  case DrainRegistry
  have "answers_ok (s\<lparr>live_tasks := []\<rparr>)" using assms(2) by (simp add: answers_ok_def)
  with DrainRegistry show ?thesis using answers_dispose_all by (simp add: drain_registry_def)
qed

interpretation answers: transition_invariant "loop_step env" "\<lambda>s. loop_inv s \<and> answers_ok s"
  by unfold_locales (use loop.step_inv answers_step in blast)

lemma reachable_answers: "reachable env s \<Longrightarrow> answers_ok s"
proof -
  assume "reachable env s"
  then obtain l where "(loop_step env)\<^sup>*\<^sup>* (new_loop l) s" unfolding reachable_def by blast
  moreover have "answers_ok (new_loop l)" by (simp add: answers_ok_def new_loop_def)
  ultimately show ?thesis using answers.steps_inv new_loop_inv by blast
qed

lemma outcome_in_log: "channel_outcome ch l = Some (Some r) \<Longrightarrow> Responded ch r \<in> set l"
  by (induction l) (auto split: event.splits if_splits)

lemma answer_is_rendered:
  assumes "reachable env s" "channel_outcome ch (log s) = Some (Some r)"
  shows "handler_answer r"
proof -
  have "list_all answer_event (log s)" using reachable_answers [OF assms(1)] by (simp add: answers_ok_def)
  then show ?thesis using outcome_in_log [OF assms(2)] by (auto simp: list_all_iff)
qed

end
