(* ===== verification/AppService.thy ===== *)
theory AppService
  imports Router Json Pool Answers
begin

text \<open>
  The request path of \<open>crates/core/src/lib.rs\<close>: parameter kinds, converting path segments to
  handler arguments, the responses, and \<open>AppService::handle\<close>, which routes a request and either
  answers at once, hands an async handler to the event loops, or runs a sync handler on a blocking
  thread.  Setting a dictionary item and calling the handler are Python's part, and reading a status code
  and a header value the \<open>http\<close> package's: they are fields of \<open>core_env\<close>.
\<close>

section \<open>Parameters\<close>

datatype param_kind = KStr | KInt | KFloat | KBool

definition from_code :: "8 word \<Rightarrow> param_kind option" where
  "from_code code =
     (if code = 0 then Some KStr
      else if code = 1 then Some KInt
      else if code = 2 then Some KFloat
      else if code = 3 then Some KBool
      else None)"

fun expected_name :: "param_kind \<Rightarrow> rstr" where
  "expected_name KStr = lit ''str''"
| "expected_name KInt = lit ''int''"
| "expected_name KFloat = lit ''float''"
| "expected_name KBool = lit ''bool''"

record route_entry =
  re_method :: rstr
  re_path :: rstr
  re_handler :: pyobj
  re_is_async :: bool
  re_params :: "(rstr \<times> param_kind) list"

record 't app_service =
  app_router :: "'t router"
  app_routes :: "route_entry list"
  app_loops :: event_loop_pool

text \<open>What is written to standard error on the way.\<close>

datatype stderr_line =
    Traceback pyobj
  | LostParameter rstr rstr rstr
  | LostParameterSync rstr rstr rstr

record core_env =
  c_set_item :: "(pyobj \<times> pyobj) list \<Rightarrow> pyobj \<Rightarrow> pyobj \<Rightarrow> pyobj option"
  c_call :: "pyobj \<Rightarrow> pyobj \<Rightarrow> pyobj + pyobj"
  c_status_code :: "u16 \<Rightarrow> u16 option"
  c_header_value :: "string \<Rightarrow> string option"

text \<open>A Python dict keeps its insertion order; setting an existing key replaces the value in place.\<close>

fun dict_set :: "(pyobj \<times> pyobj) list \<Rightarrow> pyobj \<Rightarrow> pyobj \<Rightarrow> (pyobj \<times> pyobj) list" where
  "dict_set [] k v = [(k, v)]"
| "dict_set ((k', v') # kvs) k v = (if k' = k then (k', v) # kvs else (k', v') # dict_set kvs k v)"

section \<open>Responses\<close>

definition validation_message :: "rstr \<Rightarrow> param_kind \<Rightarrow> rstr \<Rightarrow> rstr" where
  "validation_message param_name expected raw_value =
     lit ''path parameter '' @ [39] @ param_name @ [39] @ lit '' expected '' @ expected_name expected
     @ lit '', got '' @ [39] @ raw_value @ [39]"

definition validation_error_response :: "rstr \<Rightarrow> param_kind \<Rightarrow> rstr \<Rightarrow> handler_response" where
  "validation_error_response param_name expected raw_value =
     \<lparr>status = 422, content_type = ''application/json'',
      body = write_json_string (validation_message param_name expected raw_value)
               (CHR ''{'' # CHR 0x22 # ''detail'' @ [CHR 0x22, CHR '':'']) @ ''}''\<rparr>"

record http_response =
  http_status :: u16
  http_content_type :: "string option"
  http_body :: bytes

definition plain_response :: "u16 \<Rightarrow> bytes \<Rightarrow> http_response" where
  "plain_response st text =
     \<lparr>http_status = st, http_content_type = Some ''text/plain; charset=utf-8'', http_body = text\<rparr>"

definition response_from_handler :: "core_env \<Rightarrow> handler_response \<Rightarrow> http_response" where
  "response_from_handler env r =
     \<lparr>http_status = (case c_status_code env (status r) of Some n \<Rightarrow> n | None \<Rightarrow> 500),
      http_content_type = c_header_value env (content_type r), http_body = body r\<rparr>"

section \<open>Building the arguments\<close>

definition insert_arg ::
    "core_env \<Rightarrow> (pyobj \<times> pyobj) list \<Rightarrow> rstr \<Rightarrow> pyobj
      \<Rightarrow> stderr_line list \<times> (handler_response + (pyobj \<times> pyobj) list)" where
  "insert_arg env kwargs param_name v =
     (case c_set_item env kwargs (PyStr param_name) v of
        None \<Rightarrow> ([], Inr (dict_set kwargs (PyStr param_name) v))
      | Some insertion_error \<Rightarrow> ([Traceback insertion_error], Inl internal_error))"

definition convert_and_insert ::
    "core_env \<Rightarrow> (pyobj \<times> pyobj) list \<Rightarrow> rstr \<Rightarrow> param_kind \<Rightarrow> rstr
      \<Rightarrow> stderr_line list \<times> (handler_response + (pyobj \<times> pyobj) list)" where
  "convert_and_insert env kwargs param_name kind raw_value =
     (let refused = ([], Inl (validation_error_response param_name kind raw_value)) in
      case kind of
        KStr \<Rightarrow> insert_arg env kwargs param_name (PyStr raw_value)
      | KInt \<Rightarrow>
          (case parse_i64 raw_value of
             Some i \<Rightarrow> insert_arg env kwargs param_name (PyInt i)
           | None \<Rightarrow> refused)
      | KFloat \<Rightarrow>
          (case parse_f64 raw_value of
             Some x \<Rightarrow> insert_arg env kwargs param_name (PyFloat x)
           | None \<Rightarrow> refused)
      | KBool \<Rightarrow>
          if eq_ignore_ascii_case raw_value (lit ''true'') \<or> raw_value = lit ''1''
          then insert_arg env kwargs param_name (PyBool True)
          else if eq_ignore_ascii_case raw_value (lit ''false'') \<or> raw_value = lit ''0''
          then insert_arg env kwargs param_name (PyBool False)
          else refused)"

fun build_kwargs_loop ::
    "core_env \<Rightarrow> route_entry \<Rightarrow> (rstr \<times> rstr) list \<Rightarrow> (rstr \<times> param_kind) list \<Rightarrow> (pyobj \<times> pyobj) list
      \<Rightarrow> stderr_line list \<times> (handler_response + (pyobj \<times> pyobj) list)" where
  "build_kwargs_loop env route matched [] kwargs = ([], Inr kwargs)"
| "build_kwargs_loop env route matched ((param_name, kind) # params) kwargs =
     (case find (\<lambda>(matched_name, _). matched_name = param_name) matched of
        None \<Rightarrow> ([LostParameter (re_method route) (re_path route) param_name], Inl internal_error)
      | Some (_, raw_value) \<Rightarrow>
          (case convert_and_insert env kwargs param_name kind raw_value of
             (out, Inl error_response) \<Rightarrow> (out, Inl error_response)
           | (out, Inr kwargs') \<Rightarrow>
               (case build_kwargs_loop env route matched params kwargs' of (out', r) \<Rightarrow> (out @ out', r))))"

definition build_kwargs ::
    "core_env \<Rightarrow> route_entry \<Rightarrow> (rstr \<times> rstr) list
      \<Rightarrow> stderr_line list \<times> (handler_response + (pyobj \<times> pyobj) list)" where
  "build_kwargs env route matched = build_kwargs_loop env route matched (re_params route) []"

section \<open>Running a sync handler\<close>

definition execute_sync_handler :: "core_env \<Rightarrow> pyobj \<Rightarrow> pyobj \<Rightarrow> stderr_line list \<times> handler_response" where
  "execute_sync_handler env h kwargs =
     (let (printed, r) = (case c_call env h kwargs of
                            Inr return_value \<Rightarrow> response_from_return_value return_value
                          | Inl handler_error \<Rightarrow> report_handler_error handler_error)
      in (case printed of None \<Rightarrow> [] | Some e \<Rightarrow> [Traceback e], r))"

text \<open>The closure on the blocking thread: its own conversion loop, which returns early.\<close>

fun sync_loop ::
    "core_env \<Rightarrow> rstr \<times> rstr \<Rightarrow> pyobj \<Rightarrow> (rstr \<times> rstr) list \<Rightarrow> (rstr \<times> param_kind) list
      \<Rightarrow> (pyobj \<times> pyobj) list \<Rightarrow> stderr_line list \<times> handler_response" where
  "sync_loop env route_label h params_for_thread [] kwargs = execute_sync_handler env h (PyDict kwargs)"
| "sync_loop env route_label h params_for_thread ((param_name, kind) # specs) kwargs =
     (case find (\<lambda>(matched_name, _). matched_name = param_name) params_for_thread of
        None \<Rightarrow> ([LostParameterSync (fst route_label) (snd route_label) param_name], internal_error)
      | Some (_, raw_value) \<Rightarrow>
          (case convert_and_insert env kwargs param_name kind raw_value of
             (out, Inl error_response) \<Rightarrow> (out, error_response)
           | (out, Inr kwargs') \<Rightarrow>
               (case sync_loop env route_label h params_for_thread specs kwargs' of (out', r) \<Rightarrow> (out @ out', r))))"

definition run_sync ::
    "core_env \<Rightarrow> route_entry \<Rightarrow> (rstr \<times> rstr) list \<Rightarrow> stderr_line list \<times> handler_response" where
  "run_sync env route matched =
     sync_loop env (re_method route, re_path route) (re_handler route) matched (re_params route) []"

section \<open>Handling a request\<close>

text \<open>
  The future that \<open>handle\<close> returns: ready, waiting for the scheduler, or waiting for the blocking
  thread.  Indexing the routes with an unknown handler would panic.
\<close>

datatype handled =
    Ready http_response
  | AwaitLoop nat dispatched_request
  | AwaitThread route_entry "(rstr \<times> rstr) list"
  | Panicked

definition handle ::
    "'t matchit \<Rightarrow> (nat \<Rightarrow> py_env) \<Rightarrow> core_env \<Rightarrow> rstr \<Rightarrow> rstr \<Rightarrow> 't app_service
      \<Rightarrow> stderr_line list \<times> handled \<times> 't app_service" where
  "handle mi lenv env meth path app =
     (case lookup mi (app_router app) meth path of
        None \<Rightarrow> ([], Ready (plain_response 404 ''Not Found''), app)
      | Some m \<Rightarrow>
          if length (app_routes app) \<le> handler_id m then ([], Panicked, app)
          else
            (let route = app_routes app ! handler_id m in
             if re_is_async route then
               (case build_kwargs env route (path_params m) of
                  (out, Inr kwargs) \<Rightarrow>
                    (case pool_schedule lenv (re_handler route) (PyDict kwargs) (app_loops app) of
                       ((i, request), p) \<Rightarrow> (out, AwaitLoop i request, app\<lparr>app_loops := p\<rparr>))
                | (out, Inl error_response) \<Rightarrow> (out, Ready (response_from_handler env error_response), app))
             else ([], AwaitThread route (path_params m), app)))"

text \<open>What the future resolves to: the response of the channel, or the plain 500 when its sender
  was dropped.\<close>

definition resolve_await :: "core_env \<Rightarrow> handler_response option \<Rightarrow> http_response" where
  "resolve_await env outcome =
     (case outcome of
        Some r \<Rightarrow> response_from_handler env r
      | None \<Rightarrow> plain_response 500 ''Internal Server Error'')"

definition poll_handled :: "core_env \<Rightarrow> bool \<Rightarrow> 't app_service \<Rightarrow> handled \<Rightarrow> http_response option" where
  "poll_handled env thread_died app h =
     (case h of
        Ready r \<Rightarrow> Some r
      | AwaitLoop i request \<Rightarrow>
          map_option (\<lambda>(outcome, _). resolve_await env outcome) (response request (loops (app_loops app) ! i))
      | AwaitThread route matched \<Rightarrow>
          Some (resolve_await env (if thread_died then None else Some (snd (run_sync env route matched))))
      | Panicked \<Rightarrow> None)"

section \<open>Arguments\<close>

lemma sync_loop_async:
  "snd (sync_loop env label h matched specs kwargs) =
     (case snd (build_kwargs_loop env route matched specs kwargs) of
        Inl e \<Rightarrow> e
      | Inr kw \<Rightarrow> snd (execute_sync_handler env h (PyDict kw)))"
proof (induction specs arbitrary: kwargs)
  case (Cons spec specs)
  obtain n k where s: "spec = (n, k)" by fastforce
  show ?case
  proof (cases "find (\<lambda>(matched_name, _). matched_name = n) matched")
    case (Some mv)
    obtain out r where "convert_and_insert env kwargs n k (snd mv) = (out, r)" by fastforce
    with Some s Cons.IH show ?thesis
      by (cases mv; cases r) (auto simp: case_prod_beta)
  qed (simp add: s)
qed simp

text \<open>
  C24.  Sync and async handlers get the same treatment: the loop of the blocking thread refuses and
  converts exactly as \<open>build_kwargs\<close> does, and calls the handler with the same arguments.\<close>

theorem sync_and_async_agree:
  "snd (run_sync env route matched) =
     (case snd (build_kwargs env route matched) of
        Inl error_response \<Rightarrow> error_response
      | Inr kwargs \<Rightarrow> snd (execute_sync_handler env (re_handler route) (PyDict kwargs)))"
  unfolding run_sync_def build_kwargs_def by (rule sync_loop_async)

text \<open>The value a path segment stands for under each kind of parameter.\<close>

fun converted :: "param_kind \<Rightarrow> rstr \<Rightarrow> pyobj option" where
  "converted KStr raw = Some (PyStr raw)"
| "converted KInt raw = map_option PyInt (parse_i64 raw)"
| "converted KFloat raw = map_option PyFloat (parse_f64 raw)"
| "converted KBool raw =
     (if eq_ignore_ascii_case raw (lit ''true'') \<or> raw = lit ''1'' then Some (PyBool True)
      else if eq_ignore_ascii_case raw (lit ''false'') \<or> raw = lit ''0'' then Some (PyBool False)
      else None)"

definition arg_of :: "(rstr \<times> rstr) list \<Rightarrow> rstr \<times> param_kind \<Rightarrow> handler_response + pyobj \<times> pyobj" where
  "arg_of matched spec =
     (case map_of matched (fst spec) of
        None \<Rightarrow> Inl internal_error
      | Some raw \<Rightarrow>
          (case converted (snd spec) raw of
             None \<Rightarrow> Inl (validation_error_response (fst spec) (snd spec) raw)
           | Some v \<Rightarrow> Inr (PyStr (fst spec), v)))"

fun all_or_first_error :: "('e + 'a) list \<Rightarrow> 'e + 'a list" where
  "all_or_first_error [] = Inr []"
| "all_or_first_error (Inl e # xs) = Inl e"
| "all_or_first_error (Inr x # xs) =
     (case all_or_first_error xs of Inl e \<Rightarrow> Inl e | Inr ys \<Rightarrow> Inr (x # ys))"

lemma convert_and_insert_converted:
  "convert_and_insert env kwargs n k raw =
     (case converted k raw of
        None \<Rightarrow> ([], Inl (validation_error_response n k raw))
      | Some v \<Rightarrow> insert_arg env kwargs n v)"
  by (cases k) (simp_all add: convert_and_insert_def Let_def split: option.split)

lemma find_map_of: "find (\<lambda>(n', _). n' = n) xs = map_option (\<lambda>v. (n, v)) (map_of xs n)"
  by (induction xs) auto

lemma dict_set_new: "k \<notin> fst ` set kvs \<Longrightarrow> dict_set kvs k v = kvs @ [(k, v)]"
  by (induction kvs k v rule: dict_set.induct) auto

lemma build_kwargs_loop_spec:
  assumes "\<And>kw k v. c_set_item env kw k v = None"
    "distinct (map fst specs)" "\<forall>n \<in> fst ` set specs. PyStr n \<notin> fst ` set kwargs"
  shows "snd (build_kwargs_loop env route matched specs kwargs) =
    (case all_or_first_error (map (arg_of matched) specs) of Inl e \<Rightarrow> Inl e | Inr args \<Rightarrow> Inr (kwargs @ args))"
  using assms(2,3)
proof (induction specs arbitrary: kwargs)
  case (Cons spec specs)
  obtain n k where s: "spec = (n, k)" by fastforce
  show ?case
  proof (cases "map_of matched n")
    case None
    then show ?thesis by (simp add: s find_map_of arg_of_def)
  next
    case raw: (Some raw)
    show ?thesis
    proof (cases "converted k raw")
      case None
      with raw show ?thesis by (simp add: s find_map_of arg_of_def convert_and_insert_converted)
    next
      case (Some v)
      have d: "dict_set kwargs (PyStr n) v = kwargs @ [(PyStr n, v)]"
        using Cons.prems(2) s by (intro dict_set_new) simp
      have "\<forall>n' \<in> fst ` set specs. PyStr n' \<notin> fst ` set (kwargs @ [(PyStr n, v)])"
        using Cons.prems s by auto
      from Cons.IH [OF _ this] Cons.prems(1) raw Some s d show ?thesis
        by (simp add: find_map_of arg_of_def convert_and_insert_converted insert_arg_def assms(1)
            case_prod_beta split: sum.split)
    qed
  qed
qed simp

text \<open>
  C23.  The arguments of a handler, when the dictionary takes them: every declared parameter in
  order, each with the converted value of the path segment of its name; or the error of the first
  parameter, in declaration order, that is missing (the opaque 500) or does not convert (the 422
  that names the parameter, the expected type and the value).\<close>

theorem build_kwargs_spec:
  assumes "\<forall>kw k v. c_set_item env kw k v = None" "distinct (map fst (re_params route))"
  shows "snd (build_kwargs env route matched) =
    all_or_first_error (map (arg_of matched) (re_params route))"
  using build_kwargs_loop_spec [of env "re_params route" "[]" route matched] assms
  by (simp add: build_kwargs_def split: sum.split)

text \<open>
  What is relied on of the \<open>http\<close> package: \<open>StatusCode::from_u16\<close> takes the codes from 100 to 999, and
  \<open>HeaderValue::from_str\<close> texts of visible ASCII, both unchanged.
\<close>

definition visible_ascii :: "char \<Rightarrow> bool" where
  "visible_ascii c \<longleftrightarrow> 32 \<le> (of_char c :: nat) \<and> (of_char c :: nat) < 127"

definition http_ok :: "core_env \<Rightarrow> bool" where
  "http_ok env \<longleftrightarrow>
     (\<forall>n. 100 \<le> n \<longrightarrow> n < 1000 \<longrightarrow> c_status_code env n = Some n) \<and>
     (\<forall>s. list_all visible_ascii s \<longrightarrow> c_header_value env s = Some s)"

definition sample_core :: core_env where
  "sample_core =
     \<lparr>c_set_item = (\<lambda>_ _ _. None), c_call = (\<lambda>_ kwargs. Inr kwargs),
      c_status_code = (\<lambda>n. if 100 \<le> n \<and> n < 1000 then Some n else None),
      c_header_value = (\<lambda>s. if list_all visible_ascii s then Some s else None)\<rparr>"

definition sample_route :: route_entry where
  "sample_route =
     \<lparr>re_method = lit ''GET'', re_path = lit ''/u/{id}/{on}'', re_handler = PyRef 1 None, re_is_async = True,
      re_params = [(lit ''id'', KInt), (lit ''on'', KBool)]\<rparr>"

theorem build_kwargs_spec_witness:
  "snd (build_kwargs sample_core sample_route [(lit ''id'', lit ''-42''), (lit ''on'', lit ''True'')]) =
     Inr [(PyStr (lit ''id''), PyInt (- 42)), (PyStr (lit ''on''), PyBool True)]"
proof -
  have "all_or_first_error (map (arg_of [(lit ''id'', lit ''-42''), (lit ''on'', lit ''True'')])
      (re_params sample_route)) = Inr [(PyStr (lit ''id''), PyInt (- 42)), (PyStr (lit ''on''), PyBool True)]"
    by code_simp
  moreover have "distinct (map fst (re_params sample_route))" by code_simp
  moreover have "\<forall>kw k v. c_set_item sample_core kw k v = None" by (simp add: sample_core_def)
  ultimately show ?thesis using build_kwargs_spec [of sample_core sample_route] by simp
qed

text \<open>
  C25.  An \<open>int\<close> parameter accepts exactly the texts of the 64-bit integers, when the dictionary takes
  the value: a text that denotes one (an optional sign and decimal digits) passes that integer on, and
  every other text, with a value out of range or of another shape, is refused with the 422; nothing
  wraps and nothing is guessed.\<close>

theorem int_parameter_exact:
  assumes "\<forall>kw k v. c_set_item env kw k v = None"
  shows "(\<forall>i. denotes_int raw i \<longrightarrow> - (2 ^ 63) \<le> i \<longrightarrow> i < 2 ^ 63 \<longrightarrow>
      convert_and_insert env kwargs n KInt raw = ([], Inr (dict_set kwargs (PyStr n) (PyInt i)))) \<and>
    ((\<nexists>i. denotes_int raw i \<and> - (2 ^ 63) \<le> i \<and> i < 2 ^ 63) \<longrightarrow>
      convert_and_insert env kwargs n KInt raw = ([], Inl (validation_error_response n KInt raw)))"
proof (cases "parse_i64 raw")
  case None
  then have "\<not> (denotes_int raw i \<and> - (2 ^ 63) \<le> i \<and> i < 2 ^ 63)" for i
    using parse_i64_denotes [of raw i] by simp
  with None show ?thesis by (simp add: convert_and_insert_def Let_def)
next
  case (Some i)
  then have "denotes_int raw j \<and> - (2 ^ 63) \<le> j \<and> j < 2 ^ 63 \<longleftrightarrow> j = i" for j
    using parse_i64_denotes [of raw j] by auto
  moreover have "convert_and_insert env kwargs n KInt raw = ([], Inr (dict_set kwargs (PyStr n) (PyInt i)))"
    using Some assms by (simp add: convert_and_insert_def Let_def insert_arg_def)
  ultimately show ?thesis by metis
qed

theorem int_parameter_exact_witness:
  "convert_and_insert sample_core [] (lit ''id'') KInt (lit ''+007'') =
     ([], Inr [(PyStr (lit ''id''), PyInt 7)])"
proof -
  have "denotes_int (43 # [48, 48, 55]) (positional [48, 48, 55])"
    by (rule denotes_int.Plus) (simp_all add: is_digit_def)
  moreover have "positional [48, 48, 55] = 7" by (simp add: positional_value)
  ultimately have "denotes_int (lit ''+007'') 7" by simp
  moreover have "\<forall>kw k v. c_set_item sample_core kw k v = None" by (simp add: sample_core_def)
  ultimately show ?thesis using int_parameter_exact [of sample_core "lit ''+007''" "[]" "lit ''id''"] by simp
qed

section \<open>Responses on the wire\<close>

lemma validation_body:
  "body (validation_error_response n k raw) =
     json_text (PyDict [(PyStr (lit ''detail''), PyStr (validation_message n k raw))])"
proof -
  have "concat (map escape_char (lit ''detail'')) = ''detail''" by code_simp
  then show ?thesis
    by (simp add: validation_error_response_def write_json_string_def write_chars_append del: lit_Cons)
qed

lemma scalar_message:
  assumes "list_all is_scalar n" "list_all is_scalar raw"
  shows "list_all is_scalar (validation_message n k raw)"
proof -
  have "list_all is_scalar (lit ''path parameter '')" "list_all is_scalar (lit '' expected '')"
    "list_all is_scalar (lit '', got '')" "is_scalar 39" by (simp_all add: is_scalar_def)
  moreover have "list_all is_scalar (expected_name k)" by (cases k) (simp_all add: is_scalar_def)
  ultimately show ?thesis using assms by (simp add: validation_message_def del: lit_Cons)
qed

text \<open>
  C26.  The body of a validation error is well-formed JSON whatever the client put in the URL:
  reading it back gives one object whose detail is the message with the parameter's name, the
  expected type and the raw value, unescaped.\<close>

theorem validation_error_reads_back:
  assumes "list_all is_scalar n" "list_all is_scalar raw"
  shows "json_read (body (validation_error_response n k raw)) =
    Some (JObj [(lit ''detail'', JStr (validation_message n k raw))])"
proof -
  have "list_all is_scalar (lit ''detail'')" by (simp add: is_scalar_def)
  then have "json_error (PyDict [(PyStr (lit ''detail''), PyStr (validation_message n k raw))]) = None"
    using scalar_message [OF assms] by (simp add: key_error_def str_error_def to_str_def or_else_def del: lit_Cons)
  from json_read_text [OF this] show ?thesis unfolding validation_body by (simp del: lit_Cons)
qed

theorem validation_error_reads_back_witness:
  "json_read (body (validation_error_response (lit ''id'') KInt [34, 92, 0x26A1])) =
     Some (JObj [(lit ''detail'', JStr (validation_message (lit ''id'') KInt [34, 92, 0x26A1]))])"
proof -
  have "list_all is_scalar (lit ''id'')" "list_all is_scalar [34, 92, 0x26A1]" by (simp_all add: is_scalar_def)
  then show ?thesis using validation_error_reads_back by blast
qed

section \<open>What the client reads\<close>

text \<open>The responses of the request path.\<close>

definition path_response :: "handler_response \<Rightarrow> bool" where
  "path_response r \<longleftrightarrow> handler_answer r \<or> (\<exists>n k raw. r = validation_error_response n k raw)"

lemma path_responses [simp]:
  "path_response internal_error" "path_response (validation_error_response n k raw)"
  "path_response (snd (response_from_return_value v))"
  by (auto simp: path_response_def handler_answer_def)

lemma build_kwargs_loop_error:
  "snd (build_kwargs_loop env route matched specs kwargs) = Inl e \<Longrightarrow> path_response e"
proof (induction specs arbitrary: kwargs)
  case (Cons spec specs)
  obtain n k where s: "spec = (n, k)" by fastforce
  show ?case
  proof (cases "map_of matched n")
    case None
    with Cons.prems show ?thesis by (auto simp: s find_map_of)
  next
    case (Some raw)
    with Cons s show ?thesis
      by (auto simp: find_map_of convert_and_insert_converted insert_arg_def case_prod_beta split: option.splits)
  qed
qed simp

lemma build_kwargs_error: "snd (build_kwargs env route matched) = Inl e \<Longrightarrow> path_response e"
  unfolding build_kwargs_def by (rule build_kwargs_loop_error)

lemma run_sync_response: "path_response (snd (run_sync env route matched))"
proof (cases "snd (build_kwargs env route matched)")
  case (Inl e)
  then show ?thesis
    using build_kwargs_error [OF Inl] unfolding run_sync_def build_kwargs_def by (simp add: sync_loop_async [of _ _ _ _ _ _ route])
next
  case (Inr kw)
  then have "snd (run_sync env route matched) = snd (execute_sync_handler env (re_handler route) (PyDict kw))"
    unfolding run_sync_def build_kwargs_def by (simp add: sync_loop_async [of _ _ _ _ _ _ route])
  then show ?thesis
    by (simp add: execute_sync_handler_def report_handler_error_def case_prod_beta split: sum.split)
qed

lemma path_response_cases:
  assumes "path_response r"
  shows "status r \<in> {200, 204, 422, 500}"
    "content_type r \<in> {''text/plain; charset=utf-8'', ''application/json''}"
proof -
  have i: "status internal_error = 500" "content_type internal_error = ''text/plain; charset=utf-8''"
    by (simp_all add: internal_error_def)
  have "status (snd (response_from_return_value v)) \<in> {200, 204, 422, 500} \<and>
      content_type (snd (response_from_return_value v)) \<in> {''text/plain; charset=utf-8'', ''application/json''}" for v
    unfolding response_of_value using i by (auto simp: no_content_def split: option.split pyobj.split)
  then have "status r \<in> {200, 204, 422, 500} \<and> content_type r \<in> {''text/plain; charset=utf-8'', ''application/json''}"
    using assms i unfolding path_response_def handler_answer_def by (auto simp: validation_error_response_def)
  then show "status r \<in> {200, 204, 422, 500}"
    "content_type r \<in> {''text/plain; charset=utf-8'', ''application/json''}" by blast+
qed

text \<open>A handler response as the client is to read it.\<close>

definition on_the_wire :: "handler_response \<Rightarrow> http_response" where
  "on_the_wire r = \<lparr>http_status = status r, http_content_type = Some (content_type r), http_body = body r\<rparr>"

lemma response_on_the_wire:
  assumes "http_ok env" "path_response r"
  shows "response_from_handler env r = on_the_wire r"
proof -
  have "c_status_code env (status r) = Some (status r)"
    using assms(1) path_response_cases(1) [OF assms(2)] by (auto simp: http_ok_def word_less_nat_alt word_le_nat_alt)
  moreover have "list_all visible_ascii ''text/plain; charset=utf-8''" "list_all visible_ascii ''application/json''"
    by code_simp+
  then have "c_header_value env (content_type r) = Some (content_type r)"
    using assms(1) path_response_cases(2) [OF assms(2)] by (auto simp: http_ok_def)
  ultimately show ?thesis by (simp add: response_from_handler_def on_the_wire_def)
qed

end
