(* ===== verification/Server.thy ===== *)
theory Server
  imports AppService
begin

text \<open>
  Starting, serving and shutting down: \<open>start_server\<close> and \<open>Server\<close> of \<open>crates/core/src/lib.rs\<close> and
  the accept loop of \<open>crates/server/src/lib.rs\<close>.  The Tokio runtime, sockets and timers are
  parameters: what they answer is a field of \<open>server_env\<close> or \<open>shutdown_env\<close>.
\<close>

section \<open>Registering the routes\<close>

type_synonym route_spec = "rstr \<times> rstr \<times> pyobj \<times> bool \<times> (rstr \<times> 8 word) list"

definition unknown_kind_error :: "rstr \<Rightarrow> rstr \<Rightarrow> rstr \<Rightarrow> 8 word \<Rightarrow> pyobj" where
  "unknown_kind_error meth path param_name kind_code =
     new_err ValueError
       (lit ''route '' @ meth @ lit '' '' @ path @ lit '': unknown parameter kind code ''
        @ lit (show_nat (unat kind_code)) @ lit '' for '' @ [39] @ param_name @ [39] @ lit '' '' @ [0x2014]
        @ lit '' the Python and Rust layers disagree; reinstall rayo'')"

fun read_params ::
    "rstr \<Rightarrow> rstr \<Rightarrow> (rstr \<times> 8 word) list \<Rightarrow> pyobj + (rstr \<times> param_kind) list" where
  "read_params meth path [] = Inr []"
| "read_params meth path ((param_name, kind_code) # raw_params) =
     (case from_code kind_code of
        None \<Rightarrow> Inl (unknown_kind_error meth path param_name kind_code)
      | Some kind \<Rightarrow>
          (case read_params meth path raw_params of
             Inl e \<Rightarrow> Inl e
           | Inr params \<Rightarrow> Inr ((param_name, kind) # params)))"

fun register_routes ::
    "'t matchit \<Rightarrow> nat \<Rightarrow> route_spec list \<Rightarrow> 't router \<Rightarrow> route_entry list
      \<Rightarrow> pyobj + 't router \<times> route_entry list" where
  "register_routes mi route_index [] r entries = Inr (r, entries)"
| "register_routes mi route_index ((meth, path, h, is_async, raw_params) # specs) r entries =
     (case add_route mi meth path route_index r of
        (Inl registration_error, _) \<Rightarrow> Inl (new_err ValueError (registration_error_text registration_error))
      | (Inr _, r') \<Rightarrow>
          (case read_params meth path raw_params of
             Inl e \<Rightarrow> Inl e
           | Inr params \<Rightarrow>
               register_routes mi (route_index + 1) specs r'
                 (entries @ [\<lparr>re_method = meth, re_path = path, re_handler = h, re_is_async = is_async,
                              re_params = params\<rparr>])))"

section \<open>Starting\<close>

text \<open>
  The watch channel that announces the shutdown: its value, the number of changes, and how many
  receivers there are; a send without receivers changes nothing.
\<close>

record watch =
  w_value :: bool
  w_version :: nat
  w_receivers :: nat

definition watch_send :: "bool \<Rightarrow> watch \<Rightarrow> watch" where
  "watch_send v w = (if w_receivers w = 0 then w else w\<lparr>w_value := v, w_version := w_version w + 1\<rparr>)"

record 't server =
  sv_port :: u16
  sv_watch :: watch
  sv_finished :: bool
  sv_app :: "'t app_service"

record server_env =
  n_runtime :: "rstr option"
  n_bind :: "rstr \<Rightarrow> u16 \<Rightarrow> rstr option"
  n_local_addr :: "rstr \<Rightarrow> u16 \<Rightarrow> rstr + u16"

definition url_text :: "rstr \<Rightarrow> u16 \<Rightarrow> rstr" where
  "url_text host port = lit ''http://'' @ host @ lit '':'' @ lit (show_nat (unat port))"

definition runtime_error :: "rstr \<Rightarrow> pyobj" where
  "runtime_error e = new_err RuntimeError (lit ''Rayo could not start its runtime: '' @ e)"

definition bind_error :: "rstr \<Rightarrow> u16 \<Rightarrow> rstr \<Rightarrow> pyobj" where
  "bind_error host port e =
     new_err RuntimeError (lit ''Rayo could not bind '' @ url_text host port @ lit '': '' @ e)"

definition address_error :: "rstr \<Rightarrow> u16 \<Rightarrow> rstr \<Rightarrow> pyobj" where
  "address_error host port e =
     new_err RuntimeError
       (lit ''Rayo could not read the bound address for '' @ url_text host port @ lit '': '' @ e)"

text \<open>
  A failure comes with the event loops that were started before it: nothing owns them any more, and
  dropping them does not stop them.
\<close>

definition start_server ::
    "'t matchit \<Rightarrow> start_env \<Rightarrow> server_env \<Rightarrow> rstr \<Rightarrow> u16 \<Rightarrow> route_spec list \<Rightarrow> nat
      \<Rightarrow> (pyobj \<times> event_loop list) + 't server" where
  "start_server mi senv nenv host port specs loop_threads =
     (case register_routes mi 0 specs router_new [] of
        Inl e \<Rightarrow> Inl (e, [])
      | Inr (r, entries) \<Rightarrow>
          (case pool_start senv loop_threads of
             Inl e \<Rightarrow> Inl (e, leftover_loops senv loop_threads)
           | Inr p \<Rightarrow>
               (case n_runtime nenv of
                  Some e \<Rightarrow> Inl (runtime_error e, loops p)
                | None \<Rightarrow>
                    (case n_bind nenv host port of
                       Some e \<Rightarrow> Inl (bind_error host port e, loops p)
                     | None \<Rightarrow>
                         (case n_local_addr nenv host port of
                            Inl e \<Rightarrow> Inl (address_error host port e, loops p)
                          | Inr bound_port \<Rightarrow>
                              Inr \<lparr>sv_port = bound_port,
                                   sv_watch = \<lparr>w_value = False, w_version = 0, w_receivers = 1\<rparr>,
                                   sv_finished = True,
                                   sv_app = \<lparr>app_router = r, app_routes = entries, app_loops = p\<rparr>\<rparr>)))))"

definition server_port :: "'t server \<Rightarrow> u16" where
  "server_port srv = sv_port srv"

definition server_in_flight :: "'t server \<Rightarrow> usize" where
  "server_in_flight srv = total_in_flight (app_loops (sv_app srv))"

section \<open>Shutting down\<close>

text \<open>\<open>f64::max(0.0)\<close>, and the range of \<open>Duration::from_secs_f64\<close>: below \<open>2 ^ 64\<close> seconds.\<close>

definition max_zero :: "f64 \<Rightarrow> f64" where
  "max_zero x =
     (if f64_exponent x = 2047 \<and> f64_fraction x \<noteq> 0 \<or> f64_negative x then 0 else x)"

definition duration_ok :: "f64 \<Rightarrow> bool" where
  "duration_ok x \<longleftrightarrow> f64_exponent x < 1023 + 64"

definition default_grace :: f64 where
  "default_grace = 0x403E000000000000"

definition cancelled_drain :: f64 where
  "cancelled_drain = 0x4014000000000000"

text \<open>
  \<open>d_drained\<close>: whether serving finishes within the given time, asked for the natural grace and,
  after a cancellation, for the second wait; \<open>d_meanwhile\<close>: what the loops do during each wait.
\<close>

record shutdown_env =
  d_drained :: "f64 \<Rightarrow> bool"
  d_drained_after_cancel :: "f64 \<Rightarrow> bool"
  d_meanwhile :: "event_loop_pool \<Rightarrow> event_loop_pool"
  d_meanwhile_cancelled :: "event_loop_pool \<Rightarrow> event_loop_pool"
  d_running :: "nat \<Rightarrow> event_loop \<Rightarrow> event_loop"

datatype shutdown_event =
    Waited f64 bool
  | StillDraining
  | DurationPanic
  | StoppedLoops

definition drain_pool ::
    "(nat \<Rightarrow> py_env) \<Rightarrow> shutdown_env \<Rightarrow> f64 \<Rightarrow> event_loop_pool
      \<Rightarrow> shutdown_event list \<times> bool \<times> event_loop_pool" where
  "drain_pool lenv denv natural_grace p =
     (let p1 = d_meanwhile denv p in
      if d_drained denv natural_grace then ([Waited natural_grace True], True, p1)
      else
        (let p2 = d_meanwhile_cancelled denv (pool_cancel_in_flight lenv p1)
         in if d_drained_after_cancel denv cancelled_drain
            then ([Waited natural_grace False, Waited cancelled_drain True], True, p2)
            else ([Waited natural_grace False, Waited cancelled_drain False, StillDraining], False, p2)))"

definition set_pool :: "event_loop_pool \<Rightarrow> 't server \<Rightarrow> 't server" where
  "set_pool p srv = srv\<lparr>sv_app := (sv_app srv)\<lparr>app_loops := p\<rparr>\<rparr>"

text \<open>When serving has finished, its receiver of the watch channel is gone.\<close>

definition drop_receiver :: "bool \<Rightarrow> watch \<Rightarrow> watch" where
  "drop_receiver served w = (if served then w\<lparr>w_receivers := w_receivers w - 1\<rparr> else w)"

definition shutdown_impl ::
    "(nat \<Rightarrow> py_env) \<Rightarrow> shutdown_env \<Rightarrow> f64 option \<Rightarrow> 't server \<Rightarrow> shutdown_event list \<times> 't server" where
  "shutdown_impl lenv denv grace_seconds srv =
     (let p = app_loops (sv_app srv);
          w = watch_send True (sv_watch srv);
          srv1 = srv\<lparr>sv_watch := w, sv_finished := False\<rparr>
      in if sv_finished srv then
           (let natural_grace =
                  max_zero (case grace_seconds of Some g \<Rightarrow> g | None \<Rightarrow> default_grace)
            in if \<not> duration_ok natural_grace then ([DurationPanic], srv1)
               else
                 (case drain_pool lenv denv natural_grace p of
                    (evs, served, p1) \<Rightarrow>
                      (evs @ [StoppedLoops],
                       set_pool (pool_stop lenv (d_running denv) p1)
                         (srv1\<lparr>sv_watch := drop_receiver served w\<rparr>))))
         else ([StoppedLoops], set_pool (pool_stop lenv (d_running denv) p) srv1))"

definition shutdown ::
    "(nat \<Rightarrow> py_env) \<Rightarrow> shutdown_env \<Rightarrow> f64 option \<Rightarrow> 't server \<Rightarrow> shutdown_event list \<times> 't server" where
  "shutdown lenv denv grace_seconds srv = shutdown_impl lenv denv grace_seconds srv"

definition drop_server ::
    "(nat \<Rightarrow> py_env) \<Rightarrow> shutdown_env \<Rightarrow> 't server \<Rightarrow> shutdown_event list \<times> 't server" where
  "drop_server lenv denv srv = shutdown_impl lenv denv (Some 0) srv"

text \<open>
  \<open>wait\<close> subscribes to the watch channel, which marks the present value as seen, and goes on when
  Ctrl+C arrives or the value changes afterwards.  \<open>meanwhile\<close> is what happens to the server until
  then; without either event the call does not return.
\<close>

definition server_wait ::
    "(nat \<Rightarrow> py_env) \<Rightarrow> shutdown_env \<Rightarrow> bool \<Rightarrow> ('t server \<Rightarrow> 't server) \<Rightarrow> 't server
      \<Rightarrow> (shutdown_event list \<times> 't server) option" where
  "server_wait lenv denv ctrl_c meanwhile srv =
     (let seen = w_version (sv_watch srv);
          srv1 = meanwhile (srv\<lparr>sv_watch := (sv_watch srv)\<lparr>w_receivers := w_receivers (sv_watch srv) + 1\<rparr>\<rparr>)
      in if ctrl_c \<or> seen < w_version (sv_watch srv1) then Some (shutdown_impl lenv denv None srv1)
         else None)"

section \<open>The accept loop\<close>

datatype serve_event = Accepted nat | AcceptFailed rstr | ShutdownChanged

datatype serve_line = AcceptError rstr | ConnectionError nat rstr

text \<open>
  \<open>serve\<close> over the branches its \<open>select!\<close> takes: the connections that are being watched, what was
  logged, and whether the loop was left.
\<close>

fun accept_loop :: "serve_event list \<Rightarrow> nat list \<Rightarrow> serve_line list \<Rightarrow> nat list \<times> serve_line list \<times> bool" where
  "accept_loop [] watched out = (watched, out, False)"
| "accept_loop (Accepted c # es) watched out = accept_loop es (watched @ [c]) out"
| "accept_loop (AcceptFailed e # es) watched out = accept_loop es watched (out @ [AcceptError e])"
| "accept_loop (ShutdownChanged # es) watched out = (watched, out, True)"

text \<open>The task spawned for a connection.\<close>

definition connection_task :: "nat \<Rightarrow> rstr option \<Rightarrow> serve_line list" where
  "connection_task c ended = (case ended of None \<Rightarrow> [] | Some e \<Rightarrow> [ConnectionError c e])"

text \<open>
  The end of \<open>serve\<close>: what was logged, and whether it returns.  After the loop was left it waits for the
  graceful shutdown of the watched connections, which is \<open>hyper_util\<close>'s: \<open>graceful_shutdown\<close> says
  whether that completes.
\<close>

definition serve :: "(nat list \<Rightarrow> bool) \<Rightarrow> serve_event list \<Rightarrow> serve_line list \<times> bool" where
  "serve graceful_shutdown es =
     (case accept_loop es [] [] of (watched, out, left) \<Rightarrow> (out, left \<and> graceful_shutdown watched))"

section \<open>Registration\<close>

lemma register_routes_registered:
  assumes "matchit_ok mi" "registered_in (lookup mi) (map re_method entries) r"
    "register_routes mi (length entries) specs r entries = Inr (r', entries')"
  shows "registered_in (lookup mi) (map re_method entries') r'"
  using assms(2,3)
proof (induction specs arbitrary: r entries)
  case (Cons spec specs)
  obtain m p h a raw where s: "spec = (m, p, h, a, raw)" by (metis prod.exhaust)
  obtain r1 ps where step: "add_route mi m p (length entries) r = (Inr (), r1)" "read_params m p raw = Inr ps"
    "register_routes mi (Suc (length entries)) specs r1
       (entries @ [\<lparr>re_method = m, re_path = p, re_handler = h, re_is_async = a, re_params = ps\<rparr>]) = Inr (r', entries')"
    using Cons.prems(2) by (auto simp: s split: prod.splits sum.splits)
  have "registered_in (lookup mi) (map re_method entries @ [m]) r1"
    by (rule router.registered_add [OF assms(1) Cons.prems(1)]) (use step(1) in simp)
  with Cons.IH [of "entries @ [\<lparr>re_method = m, re_path = p, re_handler = h, re_is_async = a, re_params = ps\<rparr>]" r1]
  show ?case using step(3) by simp
qed simp

text \<open>
  What registration is to produce: the entries in the order of the route list, and for each method one
  tree, into which the paths of that method and no others were inserted, in order, each with its place
  in the whole list.
\<close>

definition entry_for :: "route_spec \<Rightarrow> route_entry \<Rightarrow> bool" where
  "entry_for spec e \<longleftrightarrow>
     (case spec of (meth, path, h, is_async, raw_params) \<Rightarrow>
        re_method e = meth \<and> re_path e = path \<and> re_handler e = h \<and> re_is_async e = is_async \<and>
        read_params meth path raw_params = Inr (re_params e))"

definition paths_of :: "rstr \<Rightarrow> nat \<Rightarrow> route_spec list \<Rightarrow> (rstr \<times> nat) list" where
  "paths_of meth k specs =
     map (\<lambda>(i, _, path, _). (path, i)) (filter (\<lambda>(_, m, _). m = meth) (enumerate k specs))"

definition grow_tree :: "'t matchit \<Rightarrow> (rstr \<times> nat) list \<Rightarrow> 't \<Rightarrow> 't" where
  "grow_tree mi ps t = fold (\<lambda>(path, i) t. snd (mi_insert mi path i t)) ps t"

lemma paths_of_simps [simp]:
  "paths_of meth k [] = []"
  "paths_of meth k ((m, path, x) # specs) =
     (if m = meth then [(path, k)] else []) @ paths_of meth (Suc k) specs"
  by (simp_all add: paths_of_def case_prod_beta)

lemma add_route_ok:
  "add_route mi m p i r = (Inr (), r') \<Longrightarrow>
     r' = r(m \<mapsto> snd (mi_insert mi p i (case r m of Some t \<Rightarrow> t | None \<Rightarrow> mi_new mi)))"
  by (auto simp: add_route_def Let_def split: prod.splits option.splits)

lemma register_routes_trees:
  assumes "register_routes mi k specs r entries = Inr (r', entries')"
  shows "r' meth =
    (if paths_of meth k specs = [] then r meth
     else Some (grow_tree mi (paths_of meth k specs) (case r meth of Some t \<Rightarrow> t | None \<Rightarrow> mi_new mi)))"
  using assms
proof (induction specs arbitrary: k r entries)
  case (Cons spec specs)
  obtain m p h a raw where s: "spec = (m, p, h, a, raw)" by (metis prod.exhaust)
  obtain r1 es where step: "add_route mi m p k r = (Inr (), r1)"
    "register_routes mi (Suc k) specs r1 es = Inr (r', entries')"
    using Cons.prems by (auto simp: s split: prod.splits sum.splits)
  show ?case
    using Cons.IH [OF step(2)] add_route_ok [OF step(1)] by (auto simp: s grow_tree_def)
qed simp

lemma register_routes_entries:
  assumes "register_routes mi k specs r entries = Inr (r', entries')"
  shows "\<exists>added. entries' = entries @ added \<and> list_all2 entry_for specs added"
  using assms
proof (induction specs arbitrary: k r entries)
  case (Cons spec specs)
  obtain m p h a raw where s: "spec = (m, p, h, a, raw)" by (metis prod.exhaust)
  obtain r1 ps where step: "read_params m p raw = Inr ps"
    "register_routes mi (Suc k) specs r1
       (entries @ [\<lparr>re_method = m, re_path = p, re_handler = h, re_is_async = a, re_params = ps\<rparr>]) = Inr (r', entries')"
    using Cons.prems by (auto simp: s split: prod.splits sum.splits)
  from Cons.IH [OF step(2)] step(1) show ?case by (auto simp: s entry_for_def)
qed simp

text \<open>
  C28.  Successful registration: the entry at each index is that of the route at the same place in the
  list, with its parameters decoded; and looking up a method consults a tree built from the routes
  of this method alone, in order, each under its index in the whole list, so that routes of other
  methods neither match nor shift the indices.\<close>

theorem registration_by_method:
  assumes "register_routes mi 0 specs router_new [] = Inr (r, entries)"
  shows "list_all2 entry_for specs entries \<and>
    lookup mi r meth path =
      (if paths_of meth 0 specs = [] then None
       else map_option (\<lambda>(i, params). \<lparr>handler_id = i, path_params = params\<rparr>)
              (mi_at mi (grow_tree mi (paths_of meth 0 specs) (mi_new mi)) path))"
  using register_routes_entries [OF assms] register_routes_trees [OF assms, of meth]
  by (auto simp: lookup_def router_new_def split: option.split)

theorem registration_by_method_witness:
  "\<exists>r entries. register_routes literal_tree 0
       [(lit ''GET'', lit ''/a'', PyRef 1 None, True, []), (lit ''POST'', lit ''/a'', PyRef 2 None, False, [])]
       router_new [] = Inr (r, entries) \<and>
     lookup literal_tree r (lit ''POST'') (lit ''/a'') = Some \<lparr>handler_id = 1, path_params = []\<rparr>"
proof -
  let ?specs = "[(lit ''GET'', lit ''/a'', PyRef 1 None, True, []), (lit ''POST'', lit ''/a'', PyRef 2 None, False, [])]"
  have "\<not> isl (register_routes literal_tree 0 ?specs router_new [])" by code_simp
  then obtain r entries where r: "register_routes literal_tree 0 ?specs router_new [] = Inr (r, entries)"
    by (metis isl_def sum.exhaust_sel prod.exhaust)
  have "paths_of (lit ''POST'') 0 ?specs = [(lit ''/a'', 1)]" by simp
  moreover have "mi_at literal_tree (grow_tree literal_tree [(lit ''/a'', 1)] (mi_new literal_tree)) (lit ''/a'') = Some (1, [])"
    by (simp add: grow_tree_def literal_tree_def)
  ultimately have "lookup literal_tree r (lit ''POST'') (lit ''/a'') = Some \<lparr>handler_id = 1, path_params = []\<rparr>"
    using registration_by_method [OF r, of "lit ''POST''" "lit ''/a''"] by (simp del: lit_Cons paths_of_simps)
  with r show ?thesis by blast
qed

section \<open>Dispatching\<close>

lemma start_server_parts:
  assumes "start_server mi senv nenv host port specs n = Inr srv"
  obtains r entries p where "register_routes mi 0 specs router_new [] = Inr (r, entries)"
    "pool_start senv n = Inr p" "app_router (sv_app srv) = r" "app_routes (sv_app srv) = entries"
    "app_loops (sv_app srv) = p" "sv_finished srv"
  using assms that by (auto simp: start_server_def split: sum.splits option.splits prod.splits)

lemma schedule_task:
  "schedule env h kwargs s = (request, s') \<Longrightarrow> request_task request = Some a \<Longrightarrow>
     a \<in> set (live_tasks s') \<and> heap s' a = new_task h kwargs (response_receiver request)"
  by (auto simp: schedule_cases failed_def opened_def split: sum.splits option.splits)

lemma schedule_no_task:
  "schedule env h kwargs s = (request, s') \<Longrightarrow> request_task request = None \<Longrightarrow>
     channel_outcome (response_receiver request) (log s') \<noteq> None"
  by (auto simp: schedule_cases failed_def split: sum.splits option.splits)

lemma schedule_owned:
  assumes "loop_inv s" "fresh_address env s" "schedule env h kwargs s = (request, s')"
  shows "request_task request = None \<and> channel_outcome (response_receiver request) (log s') \<noteq> None \<or>
    (\<exists>a. request_task request = Some a \<and> a \<in> set (live_tasks s') \<and>
       heap s' a = new_task h kwargs (response_receiver request) \<and> pending s' a = 1)"
proof -
  have inv: "loop_inv s'" using schedule_inv [OF assms(1,2), of h kwargs] assms(3) by simp
  then show ?thesis
    using schedule_task [OF assms(3)] schedule_no_task [OF assms(3)] loop_inv_live(3) [OF inv]
    by (cases "request_task request") auto
qed

text \<open>
  A request in the hands of a loop: the loop exists and the others are as they were; and its response
  can be read already, or there is a live task with exactly one turn coming that is to call the given
  handler with the given arguments and holds the channel the request waits on.
\<close>

definition dispatched ::
    "(nat \<Rightarrow> py_env) \<Rightarrow> pyobj \<Rightarrow> (pyobj \<times> pyobj) list \<Rightarrow> nat \<Rightarrow> dispatched_request
      \<Rightarrow> event_loop_pool \<Rightarrow> event_loop_pool \<Rightarrow> bool" where
  "dispatched lenv h kwargs i request p p' \<longleftrightarrow>
     i < pool_size p \<and> pool_size p' = pool_size p \<and> pool_reachable lenv p' \<and>
     (\<forall>j. j \<noteq> i \<longrightarrow> loops p' ! j = loops p ! j) \<and>
     (response request (loops p' ! i) \<noteq> None \<or>
      (\<exists>a. request_task request = Some a \<and> a \<in> set (live_tasks (loops p' ! i)) \<and>
         heap (loops p' ! i) a = new_task h (PyDict kwargs) (response_receiver request) \<and>
         pending (loops p' ! i) a = 1))"

lemma pool_schedule_dispatches:
  assumes "pool_reachable lenv p" "loops p \<noteq> []" "pool_size p < 2 ^ 64"
    "\<forall>i. i < pool_size p \<longrightarrow> fresh_address (lenv i) (loops p ! i)"
    "pool_schedule lenv h (PyDict kwargs) p = ((i, request), p')"
  shows "dispatched lenv h kwargs i request p p'"
proof -
  note eq = pool_schedule_eq [OF assms(5)]
  have s: "i < length (loops p)" "length (loops p') = length (loops p)" "pool_reachable lenv p'"
    using pool_schedule_reachable [OF assms(1,2) _ _ assms(5)] assms(3,4) by (simp_all add: pool_size_def)
  have "loop_inv (loops p ! i)" using pool_reachable_inv [OF assms(1)] nth_mem [OF s(1)] by blast
  moreover have "fresh_address (lenv i) (loops p ! i)" using assms(4) s(1) by (simp add: pool_size_def)
  moreover have "schedule (lenv i) h (PyDict kwargs) (loops p ! i) = (request, loops p' ! i)"
    using eq(2,3) s(1) by simp
  ultimately show ?thesis
    using schedule_owned [of "loops p ! i" "lenv i" h "PyDict kwargs" request "loops p' ! i"] s eq(3)
    by (auto simp: dispatched_def pool_size_def response_def)
qed

lemma lookup_names_route:
  assumes "matchit_ok mi" "register_routes mi 0 specs router_new [] = Inr (r, entries)"
    "lookup mi r meth path = Some m"
  shows "handler_id m < length entries \<and> handler_id m < length specs \<and>
    (\<exists>p raw. specs ! handler_id m = (meth, p, re_handler (entries ! handler_id m), re_is_async (entries ! handler_id m), raw))"
proof -
  have "registered_in (lookup mi) (map re_method entries) r"
    by (rule register_routes_registered [OF assms(1), of "[]"])
      (use assms(2) router.registered_new [of mi] in simp_all)
  then have m: "handler_id m < length entries" "re_method (entries ! handler_id m) = meth"
    using assms(3) unfolding registered_in_def by (metis length_map, metis length_map nth_map)
  have all2: "list_all2 entry_for specs entries" using register_routes_entries [OF assms(2)] by simp
  then have "handler_id m < length specs" using m(1) list_all2_lengthD by fastforce
  with m list_all2_nthD [OF all2, of "handler_id m"] show ?thesis
    by (cases "specs ! handler_id m") (auto simp: entry_for_def)
qed

lemma started_pool_task:
  assumes "pool_start senv n = Inr p" "n < 2 ^ 64" "pool_schedule lenv h (PyDict kw) p = ((i, request), p')"
    "request_task request = Some a"
  shows "handler (heap (loops p' ! i) a) = h"
proof -
  note eq = pool_schedule_eq [OF assms(3)]
  have "loops p \<noteq> [] \<and> length (loops p) = n"
    using assms(1) start_loops_new by (fastforce simp: pool_start_def split: if_splits sum.splits)
  then have "i < length (loops p)" using choose_loop_less [of p] eq(1) assms(2) by simp
  then have "schedule (lenv i) h (PyDict kw) (loops p ! i) = (request, loops p' ! i)" using eq(2,3) by simp
  from schedule_task [OF this assms(4)] show ?thesis by (simp add: new_task_def)
qed

text \<open>
  C10.  A server that started never indexes its routes out of range, and dispatches every request to the
  route registered for it: \<open>handle\<close> does not panic; a request handed to the event loops has a task
  that calls the handler of the route which the lookup named, an async one registered under the method
  of the request; and the same route, a sync one, goes to the blocking thread otherwise.\<close>

theorem started_server_never_panics:
  assumes "matchit_ok mi" "start_server mi senv nenv host port specs n = Inr srv" "n < 2 ^ 64"
    "handle mi lenv env meth path (sv_app srv) = (out, h, app')"
  shows "h \<noteq> Panicked \<and>
    (\<forall>i request a. h = AwaitLoop i request \<longrightarrow> request_task request = Some a \<longrightarrow>
       (\<exists>m p hd raw. lookup mi (app_router (sv_app srv)) meth path = Some m \<and> handler_id m < length specs \<and>
          specs ! handler_id m = (meth, p, hd, True, raw) \<and>
          handler (heap (loops (app_loops app') ! i) a) = hd)) \<and>
    (\<forall>route matched. h = AwaitThread route matched \<longrightarrow>
       (\<exists>m p hd raw. lookup mi (app_router (sv_app srv)) meth path = Some m \<and> handler_id m < length specs \<and>
          specs ! handler_id m = (meth, p, hd, False, raw) \<and> re_handler route = hd \<and> matched = path_params m))"
proof -
  obtain r entries p where r: "register_routes mi 0 specs router_new [] = Inr (r, entries)"
    "pool_start senv n = Inr p" "app_router (sv_app srv) = r" "app_routes (sv_app srv) = entries"
    "app_loops (sv_app srv) = p"
    using start_server_parts [OF assms(2)] by metis
  note route = lookup_names_route [OF assms(1) r(1)]
  show ?thesis
  proof (cases "lookup mi r meth path")
    case None
    with assms(4) r(3) show ?thesis by (auto simp: handle_def)
  next
    case (Some m)
    note rt = route [OF Some]
    let ?e = "entries ! handler_id m"
    show ?thesis
    proof (cases "re_is_async ?e")
      case False
      then show ?thesis using assms(4) r(3,4) Some rt by (auto simp: handle_def Let_def)
    next
      case True
      have "handler (heap (loops (app_loops app') ! i) a) = re_handler ?e"
        if h: "h = AwaitLoop i request" "request_task request = Some a" for i request a
      proof -
        obtain kw p' where p': "pool_schedule lenv (re_handler ?e) (PyDict kw) p = ((i, request), p')"
          "app_loops app' = p'"
          using assms(4) r(3-5) Some True rt h(1)
          by (auto simp: handle_def Let_def split: prod.splits sum.splits)
        from started_pool_task [OF r(2) assms(3) p'(1) h(2)] p'(2) show ?thesis by simp
      qed
      moreover have "h \<noteq> Panicked" "\<And>route matched. h \<noteq> AwaitThread route matched"
        using assms(4) r(3,4) Some True rt
        by (auto simp: handle_def Let_def split: prod.splits sum.splits)
      ultimately show ?thesis using Some rt True r(3) by (metis (full_types))
    qed
  qed
qed

text \<open>A server with one async route, one event loop and nothing that fails.\<close>

definition sample_start :: start_env where
  "sample_start =
     \<lparr>s_import_asyncio = None, s_new_event_loop = (\<lambda>_. Inr (PyRef 0 None)), s_tasks_module = None,
      s_hook = (\<lambda>_. None), s_display = (\<lambda>_. []), s_spawn = (\<lambda>_. None)\<rparr>"

definition sample_net :: server_env where
  "sample_net = \<lparr>n_runtime = None, n_bind = (\<lambda>_ _. None), n_local_addr = (\<lambda>_ _. Inr 8000)\<rparr>"

definition sample_specs :: "route_spec list" where
  "sample_specs = [(lit ''GET'', lit ''/a'', PyRef 1 None, True, [])]"

definition sample_app :: "(rstr \<times> nat) list app_service" where
  "sample_app =
     \<lparr>app_router = snd (add_route literal_tree (lit ''GET'') (lit ''/a'') 0 router_new),
      app_routes = [\<lparr>re_method = lit ''GET'', re_path = lit ''/a'', re_handler = PyRef 1 None,
                     re_is_async = True, re_params = []\<rparr>],
      app_loops = \<lparr>loops = [new_loop (PyRef 0 None)], scan_start_index = 0\<rparr>\<rparr>"

definition sample_server :: "(rstr \<times> nat) list server" where
  "sample_server =
     \<lparr>sv_port = 8000, sv_watch = \<lparr>w_value = False, w_version = 0, w_receivers = 1\<rparr>, sv_finished = True,
      sv_app = sample_app\<rparr>"

lemma sample_server_started:
  "start_server literal_tree sample_start sample_net (lit ''127.0.0.1'') 0 sample_specs 1 = Inr sample_server"
proof -
  have "first_missing_hook sample_start hs = None" for hs by (induction hs) (simp_all add: sample_start_def)
  then have "pool_start sample_start 1 = Inr (app_loops sample_app)"
    by (simp add: pool_start_def loop_start_def sample_start_def sample_app_def)
  moreover have "register_routes literal_tree 0 sample_specs router_new [] =
      Inr (app_router sample_app, app_routes sample_app)"
    by (simp add: sample_specs_def sample_app_def add_route_def Let_def literal_tree_def router_new_def)
  ultimately show ?thesis by (simp add: start_server_def sample_net_def sample_server_def sample_app_def)
qed

theorem started_server_never_panics_witness:
  "\<exists>i request a app'. handle literal_tree (\<lambda>_. sample_env) sample_core (lit ''GET'') (lit ''/a'') sample_app =
      ([], AwaitLoop i request, app') \<and> request_task request = Some a \<and>
    handler (heap (loops (app_loops app') ! i) a) = PyRef 1 None"
proof -
  let ?h = "handle literal_tree (\<lambda>_. sample_env) sample_core (lit ''GET'') (lit ''/a'') sample_app"
  have "fst ?h = []" "(case fst (snd ?h) of AwaitLoop _ request \<Rightarrow> request_task request \<noteq> None | _ \<Rightarrow> False)" by code_simp+
  then obtain i request a app' where h: "?h = ([], AwaitLoop i request, app')" "request_task request = Some a"
    by (cases ?h) (auto split: handled.splits)
  have "sv_app sample_server = sample_app" by (simp add: sample_server_def)
  then have "\<exists>(m :: route_match) p hd raw. handler_id m < length sample_specs \<and> sample_specs ! handler_id m = (lit ''GET'', p, hd, True, raw) \<and>
      handler (heap (loops (app_loops app') ! i) a) = hd"
    using started_server_never_panics [OF literal_tree_ok sample_server_started, of "\<lambda>_. sample_env" sample_core
        "lit ''GET''" "lit ''/a''" "[]" "AwaitLoop i request" app'] h by (simp del: lit_Cons) blast
  then have "handler (heap (loops (app_loops app') ! i) a) = PyRef 1 None" by (auto simp: sample_specs_def)
  with h show ?thesis by blast
qed

section \<open>From request to response\<close>

text \<open>
  C9.  What becomes of a request, on every branch: without a matching route the client reads 404 at
  once; a lookup that names no route would panic; a request for a sync route goes to the blocking
  thread; one for an async route with unusable parameters reads its error response at once; and with
  usable parameters it is in the hands of one loop, whose task will call the route's handler with the
  converted arguments, or already has its response.  Only in the last case does the service change.\<close>

theorem handled_request_is_owned:
  assumes "handle mi lenv env meth path app = (out, h, app')" "pool_reachable lenv (app_loops app)"
    "loops (app_loops app) \<noteq> []" "pool_size (app_loops app) < 2 ^ 64"
    "\<forall>i. i < pool_size (app_loops app) \<longrightarrow> fresh_address (lenv i) (loops (app_loops app) ! i)"
  shows "case lookup mi (app_router app) meth path of
      None \<Rightarrow> h = Ready (plain_response 404 ''Not Found'') \<and> app' = app
    | Some m \<Rightarrow>
        if length (app_routes app) \<le> handler_id m then h = Panicked \<and> app' = app
        else let route = app_routes app ! handler_id m in
          if \<not> re_is_async route then h = AwaitThread route (path_params m) \<and> app' = app
          else (case snd (build_kwargs env route (path_params m)) of
                  Inl e \<Rightarrow> h = Ready (response_from_handler env e) \<and> app' = app
                | Inr kwargs \<Rightarrow>
                    \<exists>i request. h = AwaitLoop i request \<and> app' = app\<lparr>app_loops := app_loops app'\<rparr> \<and>
                      dispatched lenv (re_handler route) kwargs i request (app_loops app) (app_loops app'))"
proof (cases "lookup mi (app_router app) meth path")
  case None
  with assms(1) show ?thesis by (auto simp: handle_def)
next
  case (Some m)
  let ?route = "app_routes app ! handler_id m"
  obtain out' outcome where b: "build_kwargs env ?route (path_params m) = (out', outcome)" by fastforce
  show ?thesis
  proof (cases "length (app_routes app) \<le> handler_id m \<or> \<not> re_is_async ?route \<or> isl outcome")
    case True
    with Some assms(1) b show ?thesis
      by (cases outcome) (auto simp: handle_def Let_def split: prod.splits if_splits)
  next
    case False
    then obtain kwargs where k: "outcome = Inr kwargs" by (cases outcome) auto
    obtain i request p where p: "pool_schedule lenv (re_handler ?route) (PyDict kwargs) (app_loops app) = ((i, request), p)"
      by (metis prod.exhaust)
    with Some False b k assms(1) have "h = AwaitLoop i request" "app' = app\<lparr>app_loops := p\<rparr>"
      by (auto simp: handle_def Let_def)
    with pool_schedule_dispatches [OF assms(2-5) p] Some False b k show ?thesis by (simp add: Let_def)
  qed
qed

theorem handled_request_is_owned_witness:
  "\<exists>i request app'. handle literal_tree (\<lambda>_. sample_env) sample_core (lit ''GET'') (lit ''/a'') sample_app =
      ([], AwaitLoop i request, app') \<and>
    dispatched (\<lambda>_. sample_env) (PyRef 1 None) [] i request (app_loops sample_app) (app_loops app')"
proof -
  obtain out h app' where h: "handle literal_tree (\<lambda>_. sample_env) sample_core (lit ''GET'') (lit ''/a'') sample_app = (out, h, app')"
    by (metis prod.exhaust)
  have "fst (handle literal_tree (\<lambda>_. sample_env) sample_core (lit ''GET'') (lit ''/a'') sample_app) = []" by code_simp
  then have out: "out = []" using h by simp
  have r: "pool_reachable (\<lambda>_. sample_env) (app_loops sample_app)"
    by (simp add: sample_app_def pool_reachable_def new_loop_reachable)
  have l: "loops (app_loops sample_app) \<noteq> []" "pool_size (app_loops sample_app) < 2 ^ 64"
    "\<forall>i. i < pool_size (app_loops sample_app) \<longrightarrow> fresh_address sample_env (loops (app_loops sample_app) ! i)"
    by (simp_all add: sample_app_def pool_size_def fresh_address_def sample_env_def new_loop_def)
  have m: "lookup literal_tree (app_router sample_app) (lit ''GET'') (lit ''/a'') = Some \<lparr>handler_id = 0, path_params = []\<rparr>"
    by code_simp
  have "length (app_routes sample_app) = 1" "re_is_async (app_routes sample_app ! 0)"
    "re_handler (app_routes sample_app ! 0) = PyRef 1 None"
    "snd (build_kwargs sample_core (app_routes sample_app ! 0) []) = Inr []"
    by (simp_all add: sample_app_def build_kwargs_def)
  with handled_request_is_owned [OF h r l] m h out show ?thesis by (auto simp: Let_def)
qed

lemma wire_shape:
  assumes "path_response r"
  shows "http_status (on_the_wire r) \<in> {200, 204, 404, 422, 500} \<and>
    http_content_type (on_the_wire r) \<in> {Some ''text/plain; charset=utf-8'', Some ''application/json''}"
  using path_response_cases [OF assms] by (auto simp: on_the_wire_def)

lemma handle_ready:
  assumes "handle mi lenv env meth path app = (out, Ready resp, app1)"
  obtains "lookup mi (app_router app) meth path = None" "resp = plain_response 404 ''Not Found''"
    | m e where "lookup mi (app_router app) meth path = Some m"
      "snd (build_kwargs env (app_routes app ! handler_id m) (path_params m)) = Inl e" "resp = response_from_handler env e"
  using assms that by (auto simp: handle_def Let_def split: option.splits if_splits prod.splits sum.splits)

lemma handle_loop_index:
  assumes "handle mi lenv env meth path app = (out, AwaitLoop i request, app1)"
    "loops (app_loops app) \<noteq> []" "pool_size (app_loops app) < 2 ^ 64"
  shows "i < pool_size (app_loops app)"
proof -
  obtain h kw p where "pool_schedule lenv h (PyDict kw) (app_loops app) = ((i, request), p)"
    using assms(1) by (auto simp: handle_def Let_def split: option.splits if_splits prod.splits sum.splits)
  then show ?thesis
    using choose_loop_less [OF assms(2)] pool_schedule_eq(1) assms(3) unfolding pool_size_def by metis
qed

text \<open>
  C27.  What the client reads is what was made for it.  Whatever \<open>handle\<close> started, in any later state
  of the service in which its future is ready: the error response of the arguments, the response of the
  loop's channel (a rendered return value or the internal error) or that of the blocking thread goes out
  with status, content type and body unchanged, as no fallback for an invalid status or header ever
  applies; a dropped sender gives the plain 500; and no other status and content type is ever sent.\<close>

theorem response_reaches_the_wire:
  assumes "http_ok env" "handle mi lenv env meth path app = (out, h, app1)"
    "loops (app_loops app) \<noteq> []" "pool_size (app_loops app) < 2 ^ 64"
    "pool_size (app_loops app') = pool_size (app_loops app)" "pool_reachable lenv (app_loops app')"
    "poll_handled env died app' h = Some resp"
  shows "(case h of
      Ready _ \<Rightarrow>
        lookup mi (app_router app) meth path = None \<and> resp = plain_response 404 ''Not Found'' \<or>
        (\<exists>m e. lookup mi (app_router app) meth path = Some m \<and>
           snd (build_kwargs env (app_routes app ! handler_id m) (path_params m)) = Inl e \<and> resp = on_the_wire e)
    | AwaitLoop i request \<Rightarrow>
        (case channel_outcome (response_receiver request) (log (loops (app_loops app') ! i)) of
           Some (Some r) \<Rightarrow> handler_answer r \<and> resp = on_the_wire r
         | Some None \<Rightarrow> resp = plain_response 500 ''Internal Server Error''
         | None \<Rightarrow> False)
    | AwaitThread route matched \<Rightarrow>
        resp = (if died then plain_response 500 ''Internal Server Error''
                else on_the_wire (snd (run_sync env route matched)))
    | Panicked \<Rightarrow> False) \<and>
    http_status resp \<in> {200, 204, 404, 422, 500} \<and>
    http_content_type resp \<in> {Some ''text/plain; charset=utf-8'', Some ''application/json''}"
proof -
  have plain: "http_status (plain_response n b) = n"
    "http_content_type (plain_response n b) = Some ''text/plain; charset=utf-8''" for n b
    by (simp_all add: plain_response_def)
  note wire = wire_shape
  note sent = response_on_the_wire [OF assms(1)]
  show ?thesis
  proof (cases h)
    case (Ready x)
    have "handle mi lenv env meth path app = (out, Ready resp, app1)"
      using assms(2,7) Ready by (simp add: poll_handled_def)
    then show ?thesis
    proof (cases rule: handle_ready)
      case 1
      with Ready plain show ?thesis by simp
    next
      case (2 m e)
      have "path_response e" by (rule build_kwargs_error [OF 2(2)])
      with 2 Ready sent wire show ?thesis by auto
    qed
  next
    case (AwaitLoop i request)
    then have "i < length (loops (app_loops app'))"
      using handle_loop_index [OF _ assms(3,4)] assms(2,5) by (simp add: pool_size_def)
    then have reach: "reachable (lenv i) (loops (app_loops app') ! i)" using assms(6) by (simp add: pool_reachable_def)
    obtain o' where o': "channel_outcome (response_receiver request) (log (loops (app_loops app') ! i)) = Some o'"
      "resp = resolve_await env o'"
      using assms(7) AwaitLoop by (auto simp: poll_handled_def response_def)
    show ?thesis
    proof (cases o')
      case None
      with o' AwaitLoop plain show ?thesis by (simp add: resolve_await_def)
    next
      case (Some r)
      have a: "handler_answer r" using answer_is_rendered [OF reach] o'(1) Some by simp
      then have "path_response r" by (simp add: path_response_def)
      with o' Some a AwaitLoop sent wire show ?thesis by (simp add: resolve_await_def)
    qed
  next
    case (AwaitThread route matched)
    have "resp = (if died then plain_response 500 ''Internal Server Error''
        else on_the_wire (snd (run_sync env route matched)))"
      using assms(7) AwaitThread sent [OF run_sync_response] by (auto simp: poll_handled_def resolve_await_def)
    with AwaitThread plain wire [OF run_sync_response] show ?thesis by simp
  qed (use assms(7) in \<open>simp add: poll_handled_def\<close>)
qed

theorem response_reaches_the_wire_witness:
  "poll_handled sample_core False sample_app
     (fst (snd (handle literal_tree (\<lambda>_. sample_env) sample_core (lit ''GET'') (lit ''/b'') sample_app))) =
       Some (plain_response 404 ''Not Found'')"
proof -
  have ok: "http_ok sample_core" by (auto simp: http_ok_def sample_core_def)
  obtain out h app1 where h: "handle literal_tree (\<lambda>_. sample_env) sample_core (lit ''GET'') (lit ''/b'') sample_app = (out, h, app1)"
    by (metis prod.exhaust)
  have n: "lookup literal_tree (app_router sample_app) (lit ''GET'') (lit ''/b'') = None" by code_simp
  have r: "pool_reachable (\<lambda>_. sample_env) (app_loops sample_app)"
    by (simp add: sample_app_def pool_reachable_def new_loop_reachable)
  have l: "loops (app_loops sample_app) \<noteq> []" "pool_size (app_loops sample_app) < 2 ^ 64"
    by (simp_all add: sample_app_def pool_size_def)
  have "h = Ready (plain_response 404 ''Not Found'')" using h n by (simp add: handle_def)
  then obtain resp where resp: "poll_handled sample_core False sample_app h = Some resp" "\<exists>x. h = Ready x"
    by (simp add: poll_handled_def)
  with response_reaches_the_wire [OF ok h l refl r resp(1)] n h show ?thesis by auto
qed

section \<open>Shutdown\<close>

text \<open>What the loops do while the shutdown waits keeps them reachable.\<close>

definition shutdown_lawful :: "(nat \<Rightarrow> py_env) \<Rightarrow> shutdown_env \<Rightarrow> bool" where
  "shutdown_lawful lenv denv \<longleftrightarrow>
     (\<forall>p. pool_reachable lenv p \<longrightarrow> pool_reachable lenv (d_meanwhile denv p)) \<and>
     (\<forall>p. pool_reachable lenv p \<longrightarrow> pool_reachable lenv (d_meanwhile_cancelled denv p)) \<and>
     (\<forall>i. runs_loop (lenv i) (d_running denv i))"

lemma drain_pool_reachable:
  "shutdown_lawful lenv denv \<Longrightarrow> pool_reachable lenv p \<Longrightarrow>
     pool_reachable lenv (snd (snd (drain_pool lenv denv g p)))"
  by (simp add: drain_pool_def Let_def shutdown_lawful_def pool_cancel_reachable)

lemma shutdown_impl_stops:
  assumes "shutdown_lawful lenv denv" "pool_reachable lenv (app_loops (sv_app srv))"
    "shutdown_impl lenv denv g srv = (evs, srv')" "DurationPanic \<notin> set evs"
  obtains p where "pool_reachable lenv p" "app_loops (sv_app srv') = pool_stop lenv (d_running denv) p"
    "\<not> sv_finished srv'"
proof (cases "sv_finished srv")
  case True
  let ?g = "max_zero (case g of Some x \<Rightarrow> x | None \<Rightarrow> default_grace)"
  obtain es served p1 where d: "drain_pool lenv denv ?g (app_loops (sv_app srv)) = (es, served, p1)"
    by (metis prod.exhaust)
  have "pool_reachable lenv p1" using drain_pool_reachable [OF assms(1,2), of ?g] d by simp
  moreover have "duration_ok ?g" using True assms(3,4) by (auto simp: shutdown_impl_def Let_def split: if_splits)
  ultimately show ?thesis
    using that True assms(3) d by (auto simp: shutdown_impl_def Let_def set_pool_def)
next
  case False
  with that [OF assms(2)] assms(3) show ?thesis by (auto simp: shutdown_impl_def Let_def set_pool_def)
qed

text \<open>
  C8.  A shutdown that was given a representable grace period leaves nothing running: afterwards
  no request is in flight on any loop, every request ever scheduled has its one outcome, and every
  loop thread was joined.  A second shutdown neither waits nor cancels and leaves the loops as they
  are.\<close>

theorem shutdown_settles_everything:
  assumes "shutdown_lawful lenv denv" "pool_reachable lenv (app_loops (sv_app srv))"
    "shutdown lenv denv g srv = (evs, srv')" "DurationPanic \<notin> set evs"
  shows "server_in_flight srv' = 0 \<and>
    (\<forall>l ch. l \<in> set (loops (app_loops (sv_app srv'))) \<longrightarrow> ch < next_channel l \<longrightarrow>
       resolutions ch l = 1 \<and> \<not> thread_running l) \<and>
    fst (shutdown lenv denv' g' srv') = [StoppedLoops] \<and>
    app_loops (sv_app (snd (shutdown lenv denv' g' srv'))) = app_loops (sv_app srv')"
proof -
  obtain p where p: "pool_reachable lenv p" "app_loops (sv_app srv') = pool_stop lenv (d_running denv) p"
    "\<not> sv_finished srv'"
    using shutdown_impl_stops [OF assms(1,2) _ assms(4)] assms(3) unfolding shutdown_def by metis
  have run: "\<forall>i. runs_loop (lenv i) (d_running denv i)" using assms(1) by (simp add: shutdown_lawful_def)
  note st = stopped_loop [OF p(1) run]
  let ?ls = "loops (pool_stop lenv (d_running denv) p)"
  have "sum_list (map in_flight_count ?ls) = 0" by (rule nothing_in_flight) (use st in blast)+
  moreover have "resolutions ch l = 1" if "l \<in> set ?ls" "ch < next_channel l" for l ch
    using inv_resolved [OF st(1) [OF that(1)] that(2)] st(2) [OF that(1)] by simp
  moreover have "pool_stop lenv r (pool_stop lenv (d_running denv) p) = pool_stop lenv (d_running denv) p" for r
    by (rule stopped_stop) (use st in blast)
  ultimately show ?thesis
    using p(2,3) st(3)
    by (simp add: server_in_flight_def total_in_flight_def shutdown_def shutdown_impl_def Let_def set_pool_def)
qed

text \<open>The requests of a cancellation sweep: one per live task, in the order of the registry.\<close>

definition cancels_requested :: "event_loop \<Rightarrow> event_loop \<Rightarrow> bool" where
  "cancels_requested l l' \<longleftrightarrow>
     (\<exists>answers. length answers = length (live_tasks l) \<and>
        l' = l\<lparr>log := rev (map2 (\<lambda>a ok. ScheduledThreadsafe (TCancel a) ok) (live_tasks l) answers) @ log l\<rparr>)"

lemma schedule_cancels_requests:
  "\<exists>answers. length answers = length as \<and>
     schedule_cancels env as l =
       l\<lparr>log := rev (map2 (\<lambda>a ok. ScheduledThreadsafe (TCancel a) ok) as answers) @ log l\<rparr>"
proof (induction as arbitrary: l)
  case (Cons a as)
  obtain ok where ok: "snd (call_soon_threadsafe env (TCancel a) l) = l\<lparr>log := ScheduledThreadsafe (TCancel a) ok # log l\<rparr>"
    by (auto simp: call_soon_threadsafe_def Let_def emit_def)
  obtain answers where "length answers = length as"
    "schedule_cancels env as (l\<lparr>log := ScheduledThreadsafe (TCancel a) ok # log l\<rparr>) =
      l\<lparr>log := rev (map2 (\<lambda>a ok. ScheduledThreadsafe (TCancel a) ok) as answers) @ ScheduledThreadsafe (TCancel a) ok # log l\<rparr>"
    using Cons.IH [of "l\<lparr>log := ScheduledThreadsafe (TCancel a) ok # log l\<rparr>"] by auto
  then show ?case using ok by (intro exI [of _ "ok # answers"]) simp
qed simp

lemma cancel_in_flight_requests: "cancels_requested l (cancel_in_flight env l)"
  unfolding cancels_requested_def cancel_in_flight_def by (rule schedule_cancels_requests)

text \<open>
  C29.  Handlers are cancelled only when the natural drain failed.  A first shutdown waits for the
  grace period it was given (negative and NaN count as zero, 30 seconds by default).  When the drain
  succeeds in that time, the loops are stopped as the wait left them.  When it does not, every loop is
  first asked to cancel each of its live tasks, once and in order, and only that changes; then comes a
  second wait of five seconds, and the loops are stopped as that one left them.\<close>

theorem cancel_only_after_grace:
  assumes "sv_finished srv" "shutdown lenv denv g srv = (evs, srv')"
    "natural = max_zero (case g of Some x \<Rightarrow> x | None \<Rightarrow> default_grace)" "duration_ok natural"
    "p = d_meanwhile denv (app_loops (sv_app srv))"
  shows "(d_drained denv natural \<longrightarrow>
      evs = [Waited natural True, StoppedLoops] \<and>
      app_loops (sv_app srv') = pool_stop lenv (d_running denv) p) \<and>
    (\<not> d_drained denv natural \<longrightarrow>
      (\<exists>q. length (loops q) = length (loops p) \<and>
         (\<forall>i. i < length (loops p) \<longrightarrow> cancels_requested (loops p ! i) (loops q ! i)) \<and>
         app_loops (sv_app srv') = pool_stop lenv (d_running denv) (d_meanwhile_cancelled denv q)) \<and>
      evs = [Waited natural False, Waited cancelled_drain (d_drained_after_cancel denv cancelled_drain)] @
        (if d_drained_after_cancel denv cancelled_drain then [] else [StillDraining]) @ [StoppedLoops])"
proof -
  let ?q = "pool_cancel_in_flight lenv p"
  have q: "length (loops ?q) = length (loops p)"
    "\<forall>i. i < length (loops p) \<longrightarrow> cancels_requested (loops p ! i) (loops ?q ! i)"
    by (simp_all add: pool_cancel_in_flight_def nth_enumerate_eq cancel_in_flight_requests)
  have s: "shutdown_impl lenv denv g srv = (evs, srv')" using assms(2) by (simp add: shutdown_def)
  show ?thesis
  proof (cases "d_drained denv natural")
    case True
    with s assms(1,3,4,5) show ?thesis by (auto simp: shutdown_impl_def Let_def drain_pool_def set_pool_def)
  next
    case False
    with s assms(1,3,4,5)
    have "app_loops (sv_app srv') = pool_stop lenv (d_running denv) (d_meanwhile_cancelled denv ?q)"
      "evs = [Waited natural False, Waited cancelled_drain (d_drained_after_cancel denv cancelled_drain)] @
        (if d_drained_after_cancel denv cancelled_drain then [] else [StillDraining]) @ [StoppedLoops]"
      by (auto simp: shutdown_impl_def Let_def drain_pool_def set_pool_def split: if_splits)
    with q False show ?thesis by blast
  qed
qed

text \<open>
  C30.  A grace period of \<open>2 ^ 64\<close> seconds or more, infinity included, makes the first shutdown
  panic: the loops are not stopped, and the handle to wait for the end of serving is spent.\<close>

theorem huge_grace_panics:
  assumes "sv_finished srv" "\<not> f64_negative x" "1087 \<le> f64_exponent x"
    "f64_exponent x = 2047 \<longrightarrow> f64_fraction x = 0"
  shows "fst (shutdown lenv denv (Some x) srv) = [DurationPanic] \<and>
    app_loops (sv_app (snd (shutdown lenv denv (Some x) srv))) = app_loops (sv_app srv) \<and>
    \<not> sv_finished (snd (shutdown lenv denv (Some x) srv))"
proof -
  have "max_zero x = x" using assms(2,4) by (auto simp: max_zero_def)
  then show ?thesis using assms(1,3) by (simp add: shutdown_def shutdown_impl_def Let_def duration_ok_def)
qed

text \<open>Shutdowns in which nothing else happens, and the drain succeeds or never does.\<close>

definition sample_shutdown :: "bool \<Rightarrow> shutdown_env" where
  "sample_shutdown drains =
     \<lparr>d_drained = (\<lambda>_. drains), d_drained_after_cancel = (\<lambda>_. drains), d_meanwhile = id,
      d_meanwhile_cancelled = id, d_running = (\<lambda>_. id)\<rparr>"

lemma sample_durations:
  "duration_ok (max_zero 0)" "duration_ok (max_zero default_grace)" "\<not> f64_negative 0x7FF0000000000000"
  "f64_exponent 0x7FF0000000000000 = 2047" "f64_fraction 0x7FF0000000000000 = 0"
  by (simp_all add: duration_ok_def max_zero_def default_grace_def f64_exponent_def f64_fraction_def
      f64_negative_def)

theorem shutdown_settles_everything_witness:
  "server_in_flight (snd (shutdown (\<lambda>_. sample_env) (sample_shutdown False) (Some 0) sample_server)) = 0"
proof -
  have "shutdown_lawful (\<lambda>_. sample_env) (sample_shutdown False)"
    by (simp add: shutdown_lawful_def sample_shutdown_def runs_loop_def)
  moreover have "pool_reachable (\<lambda>_. sample_env) (app_loops (sv_app sample_server))"
    by (simp add: sample_server_def sample_app_def pool_reachable_def new_loop_reachable)
  moreover have "DurationPanic \<notin> set (fst (shutdown (\<lambda>_. sample_env) (sample_shutdown False) (Some 0) sample_server))"
    using sample_durations(1)
    by (simp add: shutdown_def shutdown_impl_def Let_def drain_pool_def sample_server_def sample_shutdown_def)
  ultimately show ?thesis using shutdown_settles_everything [OF _ _ surjective_pairing] by blast
qed

text \<open>The same server with one request in flight.\<close>

definition busy_server :: "(rstr \<times> nat) list server" where
  "busy_server = set_pool sample_pool sample_server"

theorem cancel_only_after_grace_witness:
  "\<exists>q. cancels_requested sample_loop (loops q ! 0) \<and>
     app_loops (sv_app (snd (shutdown (\<lambda>_. sample_env) (sample_shutdown False) None busy_server))) =
       pool_stop (\<lambda>_. sample_env) (\<lambda>_. id) q"
proof -
  have b: "sv_finished busy_server" "app_loops (sv_app busy_server) = sample_pool"
    by (simp_all add: busy_server_def set_pool_def sample_server_def)
  note c = cancel_only_after_grace [OF b(1) surjective_pairing, of "max_zero default_grace" None sample_pool
      "sample_shutdown False" "\<lambda>_. sample_env"]
  have "\<exists>q. (\<forall>i. i < length (loops sample_pool) \<longrightarrow> cancels_requested (loops sample_pool ! i) (loops q ! i)) \<and>
      app_loops (sv_app (snd (shutdown (\<lambda>_. sample_env) (sample_shutdown False) None busy_server))) =
        pool_stop (\<lambda>_. sample_env) (\<lambda>_. id) q"
    using c sample_durations(2) b(2) by (auto simp: sample_shutdown_def)
  moreover have "0 < length (loops sample_pool)" "loops sample_pool ! 0 = sample_loop"
    by (simp_all add: sample_pool_def)
  ultimately show ?thesis by metis
qed

theorem huge_grace_panics_witness:
  "fst (shutdown (\<lambda>_. sample_env) (sample_shutdown True) (Some 0x7FF0000000000000) sample_server) = [DurationPanic]"
proof -
  have "sv_finished sample_server" by (simp add: sample_server_def)
  with sample_durations(3-5) show ?thesis using huge_grace_panics [of sample_server "0x7FF0000000000000"] by simp
qed

section \<open>Starting and serving\<close>

text \<open>
  C31.  When binding fails, the error names the address and the reason, but all the event loops
  that were asked for have been started by then, and they are left behind with their threads
  running.\<close>

theorem failed_bind_leaves_loops_running:
  assumes "register_routes mi 0 specs router_new [] = Inr (r, entries)" "pool_start senv n = Inr p"
    "n_runtime nenv = None" "n_bind nenv host port = Some e"
  shows "start_server mi senv nenv host port specs n = Inl (bind_error host port e, loops p) \<and>
    length (loops p) = n \<and> (\<forall>l. l \<in> set (loops p) \<longrightarrow> thread_running l)"
proof -
  obtain ls where ls: "start_loops senv [0..<n] = Inr ls" "loops p = ls"
    using assms(2) by (auto simp: pool_start_def split: if_splits sum.splits)
  have "thread_running l" if "l \<in> set ls" for l
    using start_loops_new [OF ls(1)] that by (fastforce simp: new_loop_def)
  then show ?thesis using assms ls start_loops_new [OF ls(1)] by (simp add: start_server_def)
qed

theorem failed_bind_leaves_loops_running_witness:
  "\<exists>p :: event_loop_pool. start_server literal_tree sample_start (sample_net\<lparr>n_bind := (\<lambda>_ _. Some (lit ''in use''))\<rparr>)
      (lit ''127.0.0.1'') 0 sample_specs 1 = Inl (bind_error (lit ''127.0.0.1'') 0 (lit ''in use''), loops p) \<and>
    length (loops p) = 1 \<and> (\<forall>l. l \<in> set (loops p) \<longrightarrow> thread_running l)"
proof -
  obtain r entries p where r: "register_routes literal_tree 0 sample_specs router_new [] = Inr (r, entries)"
    "pool_start sample_start 1 = Inr p"
    using start_server_parts [OF sample_server_started] by metis
  let ?net = "sample_net\<lparr>n_bind := (\<lambda>_ _. Some (lit ''in use''))\<rparr>"
  have "n_runtime ?net = None" "n_bind ?net (lit ''127.0.0.1'') 0 = Some (lit ''in use'')"
    by (simp_all add: sample_net_def)
  from failed_bind_leaves_loops_running [OF r this] show ?thesis by blast
qed

end
