(* ===== verification/Ledger.thy ===== *)
theory Ledger
  imports TaskContract
begin

text \<open>
  What the scheduler promises its clients, without tasks, turns or Python: every request goes from
  not yet opened to waiting, and from waiting to answered or dropped, where it stays.  The event loop
  implements this life cycle for all its requests at once.
\<close>

section \<open>The life of a request\<close>

datatype request_status = Unopened | Waiting | Answered handler_response | Dropped

inductive status_step :: "request_status \<Rightarrow> request_status \<Rightarrow> bool" where
  Opened: "status_step Unopened Waiting"
| Answer: "status_step Waiting (Answered r)"
| Drop: "status_step Waiting Dropped"

text \<open>The abstraction: the status of each channel, read off the loop.\<close>

definition status_of :: "event_loop \<Rightarrow> nat \<Rightarrow> request_status" where
  "status_of s ch =
     (if next_channel s \<le> ch then Unopened
      else case channel_outcome ch (log s) of
             None \<Rightarrow> Waiting
           | Some None \<Rightarrow> Dropped
           | Some (Some r) \<Rightarrow> Answered r)"

section \<open>The simulation\<close>

lemma reaches_outcome:
  "status_step\<^sup>*\<^sup>* Waiting (case x of None \<Rightarrow> Waiting | Some None \<Rightarrow> Dropped | Some (Some r) \<Rightarrow> Answered r)"
  by (auto intro: status_step.intros split: option.split)

lemma later_simulates:
  assumes "later s s'" "loop_inv s'"
  shows "status_step\<^sup>*\<^sup>* (status_of s ch) (status_of s' ch)"
proof -
  obtain es where es: "log s' = es @ log s" and n: "next_channel s \<le> next_channel s'"
    using assms by (auto simp: later_def)
  consider "next_channel s' \<le> ch" | "next_channel s \<le> ch" "ch < next_channel s'"
    | "ch < next_channel s" "channel_outcome ch (log s) = None"
    | x where "ch < next_channel s" "channel_outcome ch (log s) = Some x"
    by fastforce
  then show ?thesis
  proof cases
    case 1
    with n show ?thesis by (simp add: status_of_def)
  next
    case 2
    then have "status_step\<^sup>*\<^sup>* Waiting (status_of s' ch)" by (simp add: status_of_def reaches_outcome)
    with status_step.Opened have "status_step\<^sup>*\<^sup>* Unopened (status_of s' ch)"
      by (rule converse_rtranclp_into_rtranclp)
    with 2 show ?thesis by (simp add: status_of_def [of s])
  next
    case 3
    with n show ?thesis by (simp add: status_of_def reaches_outcome)
  next
    case 4
    with n outcome_stays [OF assms(2) es 4(2)] show ?thesis by (simp add: status_of_def)
  qed
qed

text \<open>A turn settles no request but its own.\<close>

lemma turn_other_outcome:
  assumes inv: "loop_inv s" and p: "0 < pending s a" and other: "response_sender (heap s a) \<noteq> Some ch"
  shows "channel_outcome ch (log (call_task env a fut s)) = channel_outcome ch (log s) \<and>
    next_channel (call_task env a fut s) = next_channel s"
proof (cases "finished (lock_state s a)")
  case True
  then show ?thesis by (simp add: call_task_def Let_def)
next
  case False
  let ?s0 = "emit (TurnStarted a) s" and ?s' = "call_task env a fut s"
  have live: "a \<in> set (live_tasks s)" using False inv p by (auto simp: loop_inv_def wakes_ok_def)
  note l = loop_inv_live [OF inv live]
  have "turn_ok env a ?s0 ?s'" using l(1,2) by (intro call_task_turn) (simp_all add: context_ok_def)
  then consider "yields a ?s0 ?s'" | "completes env a ?s0 ?s'" unfolding turn_ok_def by blast
  then show ?thesis
  proof cases
    case 1
    then have f: "frame a ?s0 ?s'" by (simp add: yields_def)
    then obtain es where "log ?s' = es @ log ?s0" "list_all (\<lambda>e. \<not> channel_event e) es"
      by (auto simp: frame_def extends_log_def)
    then show ?thesis using no_channel_outcome [of es ch] frame_globals [OF f] by simp
  next
    case 2
    then obtain s1 r k where s1: "silent a ?s0 s1" and g: "log_grows (finish env a r k s1) ?s'"
      by (auto simp: completes_def)
    have f: "frame a ?s0 s1" using s1 by (simp add: silent_def)
    obtain own where own: "response_sender (heap ?s0 a) = Some own" "own \<noteq> ch" using l(5) other by auto
    have u: "unsettled (lock_state ?s0 a)" using l(1) by simp
    obtain es gs fs where "log ?s' = gs @ Responded own r # es @ fs @ log ?s0"
      "list_all (\<lambda>e. \<not> channel_event e) (es @ fs)" "list_all (\<lambda>e. \<not> channel_event e) gs"
      using ends_log [OF f u own(1) g] by metis
    then have "channel_outcome ch (log ?s') = channel_outcome ch (log s)"
      using no_channel_outcome [of gs ch] no_channel_outcome [of "es @ fs" ch "log ?s0"] own(2) by simp
    moreover have "next_channel (finish env a r k s1) = next_channel s1"
    proof -
      have "\<not> finished (lock_state s1 a)" "response_sender (heap s1 a) = Some own"
        using frame_unsettled [OF f u] frame_sender [OF f] own(1) by simp_all
      from finish_unfinished [OF this, of env r k] show ?thesis by auto
    qed
    then have "next_channel ?s' = next_channel s"
      using frame_globals [OF f] g by (auto simp: log_grows_def)
    ultimately show ?thesis by blast
  qed
qed

text \<open>
  C35.  Refinement: the event loop implements the abstract life of a request.  A newly started loop
  has no request opened; every step of the loop, by whichever operation, moves every request only along
  the abstract transitions, so that no answer is ever replaced or taken back; and a turn of a task
  moves no request but the one that task serves, whatever Python code runs in it.\<close>

theorem loop_refines_request_life:
  assumes "reachable env s" "loop_step env s s'"
  shows "status_of (new_loop l) ch = Unopened \<and> status_step\<^sup>*\<^sup>* (status_of s ch) (status_of s' ch) \<and>
    (\<forall>a fut. 0 < pending s a \<longrightarrow> response_sender (heap s a) \<noteq> Some ch \<longrightarrow>
       status_of (call_task env a fut s) ch = status_of s ch)"
proof -
  have inv: "loop_inv s" by (rule reachable_inv [OF assms(1)])
  have "status_of (call_task env a fut s) ch = status_of s ch"
    if "0 < pending s a" "response_sender (heap s a) \<noteq> Some ch" for a fut
    using turn_other_outcome [OF inv that] by (simp add: status_of_def)
  moreover have "status_of (new_loop l) ch = Unopened"
    unfolding status_of_def new_loop_def by simp
  ultimately show ?thesis
    using later_simulates [OF later_step [OF inv assms(2)] loop.step_inv [OF inv assms(2)]] by blast
qed

theorem loop_refines_request_life_witness:
  "status_of sample_loop 0 = Waiting \<and> status_step\<^sup>*\<^sup>* Waiting (status_of sample_done 0)"
proof -
  have s: "loop_step sample_env sample_loop sample_done"
    unfolding sample_done_def by (rule loop_step.Turn) (simp add: pending_def)
  have "status_of sample_loop 0 = Waiting" by (simp add: status_of_def)
  with loop_refines_request_life [OF sample_loop_reachable s, of "PyRef 0 None" 0] show ?thesis by simp
qed

end
