(* ===== verification/Progress.thy ===== *)
theory Progress
  imports Ledger
begin

text \<open>
  Progress.  A handler that gives up control a number of times and then returns is answered after
  exactly one turn more than that, and not before, when the calls around it succeed.
\<close>

section \<open>A handler that returns\<close>

definition sends :: "addr \<Rightarrow> event list \<Rightarrow> nat" where
  "sends a l = length (filter (\<lambda>e. e = Sent a) l)"

text \<open>
  \<open>returns_after env a coro n v\<close>: the calls of a turn of \<open>a\<close> succeed, the handler gives the
  coroutine \<open>coro\<close>, and that yields \<open>None\<close> on its first \<open>n\<close> steps and then returns \<open>v\<close>.
\<close>

definition returns_after :: "py_env \<Rightarrow> addr \<Rightarrow> pyobj \<Rightarrow> pyobj \<Rightarrow> nat \<Rightarrow> pyobj \<Rightarrow> bool" where
  "returns_after env a coro ctx n v \<longleftrightarrow>
     (\<forall>l h kw. e_call_handler env l h kw = Return (Inr coro)) \<and> (\<forall>l. e_copy_context env l = Inr ctx) \<and>
     (\<forall>l. e_register env l a = None) \<and> (\<forall>l. e_enter_task env l a = None) \<and>
     (\<forall>l. e_leave_task env l a = None) \<and> (\<forall>l. e_context_enter env l ctx = None) \<and>
     (\<forall>l. e_context_exit env l ctx = None) \<and> (\<forall>l. e_call_soon env l a = None) \<and>
     (\<forall>l. e_send env l coro = Return (if sends a l < n then GenNext PyNone else GenReturn v))"

text \<open>A task that waits for its next plain turn.\<close>

definition ready :: "addr \<Rightarrow> pyobj \<Rightarrow> pyobj \<Rightarrow> nat \<Rightarrow> event_loop \<Rightarrow> bool" where
  "ready a coro ctx i s \<longleftrightarrow>
     \<not> must_cancel (lock_state s a) \<and> deferred_throw (lock_state s a) = None \<and> sends a (log s) = i \<and>
     (coroutine (lock_state s a) = None \<and> task_context (lock_state s a) = None \<or>
      coroutine (lock_state s a) = Some coro \<and> task_context (lock_state s a) = Some ctx)"

lemma sends_simps [simp]:
  "sends a [] = 0" "sends a (e # l) = (if e = Sent a then 1 else 0) + sends a l"
  by (simp_all add: sends_def)

lemma print_error_None [simp]: "print_error None s = s"
  by (simp add: print_error_def)

lemma is_ok_None [simp]: "is_ok None"
  by (simp add: is_ok_def)

section \<open>One turn\<close>

lemma run_in_context_smooth:
  assumes "returns_after env a coro ctx n v"
  shows "run_in_context env a coro ctx None s =
    emit (LeftTask a True) (emit (ExitedContext a True)
      (step_once env a coro None (emit (EnteredContext a True) (emit (EnteredTask a True) s))))"
  using assms by (simp add: returns_after_def run_in_context_def Let_def leave_task_def)

lemma step_once_yield:
  assumes "returns_after env a coro ctx n v" "sends a (log s) < n"
  shows "step_once env a coro None s =
    emit (ScheduledSoon a True) (emit (Stepped a (StepYielded PyNone)) (emit (Sent a) s))"
  using assms by (simp add: returns_after_def step_once_def send_step_def reschedule_or_abort_def Let_def)

lemma step_once_return:
  assumes "returns_after env a coro ctx n v" "\<not> sends a (log s) < n"
  shows "step_once env a coro None s =
    finish env a (snd (response_from_return_value v)) (Returned v)
      (print_error (fst (response_from_return_value v))
        (emit (Stepped a (StepReturned v)) (emit (Sent a) s)))"
  using assms by (simp add: returns_after_def step_once_def send_step_def case_prod_beta Let_def)

text \<open>Down to its step, a plain turn only readies the task.\<close>

lemma call_task_ready:
  assumes env: "returns_after env a coro ctx n v" and r: "ready a coro ctx i s"
    and u: "unsettled (lock_state s a)"
  obtains t where "call_task env a None s = run_in_context env a coro ctx None t"
    "ready a coro ctx i t" "coroutine (lock_state t a) = Some coro" "unsettled (lock_state t a)"
    "live_tasks t = live_tasks s" "response_sender (heap t a) = response_sender (heap s a)"
proof -
  let ?st = "lock_state s a"
  let ?s1 = "set_state a (?st\<lparr>waiting_on := None, must_cancel := False, cancel_message := None,
                            deferred_throw := None\<rparr>) (emit (TurnStarted a) s)"
  have f: "\<not> finished ?st" using u by simp
  show ?thesis
  proof (cases "coroutine ?st")
    case None
    let ?t = "modify a (\<lambda>st. st\<lparr>registered_with_asyncio := True\<rparr>) (emit (Registered a True)
      (modify a (\<lambda>st. st\<lparr>coroutine := Some coro, task_context := Some ctx\<rparr>)
        (emit CopiedContext (emit (CalledHandler a) ?s1))))"
    have "start env a ?s1 = (True, ?t)" using env by (simp add: start_def returns_after_def Let_def)
    then have "call_task env a None s = run_in_context env a coro ctx None ?t"
      using None f r by (simp add: call_task_def Let_def choose_throw_def ready_def)
    moreover have "ready a coro ctx i ?t" using r by (simp add: ready_def)
    ultimately show ?thesis using that u by (simp add: unsettled_def)
  next
    case (Some c)
    then have "call_task env a None s = run_in_context env a coro ctx None ?s1"
      using f r by (simp add: call_task_def Let_def choose_throw_def ready_def)
    moreover have "ready a coro ctx i ?s1" using r by (simp add: ready_def)
    ultimately show ?thesis using that Some r u by (simp add: ready_def unsettled_def)
  qed
qed

lemma turn_yield:
  assumes "returns_after env a coro ctx n v" "ready a coro ctx i s" "unsettled (lock_state s a)" "i < n"
  shows "ready a coro ctx (Suc i) (call_task env a None s)"
    "live_tasks (call_task env a None s) = live_tasks s"
    "response_sender (heap (call_task env a None s) a) = response_sender (heap s a)"
proof -
  obtain t where t: "call_task env a None s = run_in_context env a coro ctx None t" "ready a coro ctx i t"
    "live_tasks t = live_tasks s" "response_sender (heap t a) = response_sender (heap s a)"
    using call_task_ready [OF assms(1-3)] by metis
  have "call_task env a None s =
      emit (LeftTask a True) (emit (ExitedContext a True) (emit (ScheduledSoon a True)
        (emit (Stepped a (StepYielded PyNone)) (emit (Sent a)
          (emit (EnteredContext a True) (emit (EnteredTask a True) t))))))"
    unfolding t(1) run_in_context_smooth [OF assms(1)]
    by (subst step_once_yield [OF assms(1)]) (use t(2) assms(4) in \<open>simp_all add: ready_def\<close>)
  then show "ready a coro ctx (Suc i) (call_task env a None s)"
    "live_tasks (call_task env a None s) = live_tasks s"
    "response_sender (heap (call_task env a None s) a) = response_sender (heap s a)"
    using t by (simp_all add: ready_def)
qed

lemma turn_return:
  assumes "returns_after env a coro ctx n v" "ready a coro ctx n s" "unsettled (lock_state s a)"
    "response_sender (heap s a) = Some ch"
  shows "sends a (log (call_task env a None s)) = Suc n \<and> task_done a (call_task env a None s) \<and> result a (call_task env a None s) = Inr v \<and>
    channel_outcome ch (log (call_task env a None s)) = Some (Some (snd (response_from_return_value v)))"
proof -
  obtain t where t: "call_task env a None s = run_in_context env a coro ctx None t" "ready a coro ctx n t"
    "unsettled (lock_state t a)" "response_sender (heap t a) = Some ch"
    using call_task_ready [OF assms(1-3)] assms(4) by metis
  define t1 where "t1 = print_error (fst (response_from_return_value v))
    (emit (Stepped a (StepReturned v)) (emit (Sent a)
      (emit (EnteredContext a True) (emit (EnteredTask a True) t))))"
  have t1: "heap t1 = heap t" "sends a (log t1) = Suc n"
    using t(2) by (auto simp: t1_def ready_def print_error_def split: option.split)
  have st: "lock_state t1 a = lock_state t a" by (simp add: lock_state_def t1)
  define s2 where "s2 = finish env a (snd (response_from_return_value v)) (Returned v) t1"
  have eq: "call_task env a None s = emit (LeftTask a True) (emit (ExitedContext a True) s2)"
    unfolding t(1) run_in_context_smooth [OF assms(1)] s2_def t1_def
    by (subst step_once_return [OF assms(1)]) (use t(2) in \<open>simp_all add: ready_def\<close>)
  have "\<not> finished (lock_state t1 a)" "response_sender (heap t1 a) = Some ch" using t st t1 by simp_all
  from finish_unfinished [OF this, of env "snd (response_from_return_value v)" "Returned v"]
  obtain es where es: "list_all (notify_event a) es"
    "log s2 = Responded ch (snd (response_from_return_value v)) # es @ log t1"
    "lock_state s2 a = final_state (Returned v) (lock_state t1 a)"
    unfolding s2_def [symmetric] by (auto simp: lock_state_def)
  have "sends a (es @ log t1) = sends a (log t1)"
    using es(1) by (induction es) (auto elim!: notify_event.elims)
  then have "sends a (log s2) = Suc n"
    "channel_outcome ch (log s2) = Some (Some (snd (response_from_return_value v)))"
    using es(2) t1(2) by simp_all
  moreover have "finished (lock_state s2 a)" "result a s2 = Inr v"
    using t(3) st es(3) by (simp_all add: result_def Let_def unsettled_def)
      (simp add: final_state_def record_completion_def)
  ultimately show ?thesis unfolding eq by (simp add: task_done_def result_def Let_def)
qed

section \<open>Until the answer\<close>

lemma live_open:
  assumes "loop_inv s" "a \<in> set (live_tasks s)" "response_sender (heap s a) = Some ch"
  shows "channel_outcome ch (log s) = None"
proof -
  have "Some ch \<in> senders (set (live_tasks s)) s" using assms(2,3) by (force simp: senders_def)
  then have "resolutions ch s = 0" using assms(1) by (simp add: loop_inv_def owed_def channels_ok_def)
  then show ?thesis using outcome_iff_resolved [of ch s] by blast
qed

text \<open>As long as the handler still yields, a turn leaves the task as it was, one step further on.\<close>

lemma yielding_turns:
  assumes env: "returns_after env a coro ctx n v" and "reachable env s" "a \<in> set (live_tasks s)"
    "response_sender (heap s a) = Some ch" "ready a coro ctx i s" "i + k \<le> n"
  shows "reachable env ((call_task env a None ^^ k) s) \<and>
    a \<in> set (live_tasks ((call_task env a None ^^ k) s)) \<and>
    response_sender (heap ((call_task env a None ^^ k) s) a) = Some ch \<and>
    ready a coro ctx (i + k) ((call_task env a None ^^ k) s)"
  using assms(6)
proof (induction k)
  case 0
  with assms show ?case by simp
next
  case (Suc k)
  let ?t = "(call_task env a None ^^ k) s"
  have t: "reachable env ?t" "a \<in> set (live_tasks ?t)" "response_sender (heap ?t a) = Some ch"
    "ready a coro ctx (i + k) ?t" "i + k < n" using Suc by simp_all
  have inv: "loop_inv ?t" by (rule reachable_inv [OF t(1)])
  have "0 < pending ?t a" using loop_inv_live(3) [OF inv t(2)] by simp
  then have "reachable env (call_task env a None ?t)"
    using reachable_steps [OF t(1)] loop_step.Turn by blast
  then show ?case
    using turn_yield [OF env t(4) loop_inv_live(1) [OF inv t(2)] t(5)] t(2,3) by simp
qed

text \<open>
  C36.  A handler that yields \<open>n\<close> times and then returns \<open>v\<close>, of which \<open>i\<close> steps are already taken,
  is answered with the rendering of \<open>v\<close> after exactly \<open>n - i + 1\<close> further turns of its task, when the
  calls around its steps succeed: every turn takes one step of the coroutine, before the last one the
  task is not done and the request has no outcome, and the last one completes both.\<close>

theorem handler_runs_to_completion:
  assumes "returns_after env a coro ctx n v" "reachable env s" "a \<in> set (live_tasks s)"
    "response_sender (heap s a) = Some ch" "ready a coro ctx i s" "i \<le> n"
    "s' = (call_task env a None ^^ Suc (n - i)) s"
  shows "(\<forall>k\<le>n - i. sends a (log ((call_task env a None ^^ k) s)) = i + k \<and>
      \<not> task_done a ((call_task env a None ^^ k) s) \<and>
      channel_outcome ch (log ((call_task env a None ^^ k) s)) = None) \<and>
    sends a (log s') = Suc n \<and> task_done a s' \<and> result a s' = Inr v \<and>
    channel_outcome ch (log s') = Some (Some (snd (response_from_return_value v)))"
proof (intro conjI allI impI)
  note turns = yielding_turns [OF assms(1-5)]
  fix k assume k: "k \<le> n - i"
  let ?t = "(call_task env a None ^^ k) s"
  have t: "reachable env ?t" "a \<in> set (live_tasks ?t)" "response_sender (heap ?t a) = Some ch"
    "ready a coro ctx (i + k) ?t" using turns [of k] k assms(6) by simp_all
  have inv: "loop_inv ?t" by (rule reachable_inv [OF t(1)])
  show "sends a (log ?t) = i + k" using t(4) by (simp add: ready_def)
  show "channel_outcome ch (log ?t) = None" by (rule live_open [OF inv t(2,3)])
  show "\<not> task_done a ?t" using loop_inv_live(1) [OF inv t(2)] by (simp add: task_done_def)
next
  let ?t = "(call_task env a None ^^ (n - i)) s"
  have t: "reachable env ?t" "a \<in> set (live_tasks ?t)" "response_sender (heap ?t a) = Some ch"
    "ready a coro ctx n ?t" using yielding_turns [OF assms(1-5), of "n - i"] assms(6) by simp_all
  have "s' = call_task env a None ?t" using assms(7) by simp
  with turn_return [OF assms(1) t(4) loop_inv_live(1) [OF reachable_inv [OF t(1)] t(2)] t(3)]
  show "sends a (log s') = Suc n" "task_done a s'" "result a s' = Inr v"
    "channel_outcome ch (log s') = Some (Some (snd (response_from_return_value v)))" by simp_all
qed

text \<open>The environment of the samples, with a handler that yields twice before it returns 7.\<close>

definition slow_env :: py_env where
  "slow_env = sample_env\<lparr>e_send := \<lambda>l _. Return (if sends 0 l < 2 then GenNext PyNone else GenReturn (PyInt 7))\<rparr>"

theorem handler_runs_to_completion_witness:
  "returns_after slow_env 0 (PyRef 10 None) (PyRef 11 None) 2 (PyInt 7) \<and>
   channel_outcome 0 (log ((call_task slow_env 0 None ^^ 2) sample_loop)) = None \<and>
   channel_outcome 0 (log ((call_task slow_env 0 None ^^ 3) sample_loop)) =
     Some (Some (snd (response_from_return_value (PyInt 7))))"
proof -
  have r: "returns_after slow_env 0 (PyRef 10 None) (PyRef 11 None) 2 (PyInt 7)"
    by (simp add: returns_after_def slow_env_def sample_env_def)
  have "schedule slow_env (PyRef 1 None) (PyDict []) (new_loop (PyRef 0 None)) =
      schedule sample_env (PyRef 1 None) (PyDict []) (new_loop (PyRef 0 None))"
    by (simp add: schedule_cases slow_env_def split: sum.split)
  then have "sample_loop = snd (schedule slow_env (PyRef 1 None) (PyDict []) (new_loop (PyRef 0 None)))"
    by (simp add: sample_loop_def)
  moreover have "fresh_address slow_env (new_loop (PyRef 0 None))"
    by (simp add: fresh_address_def new_loop_def slow_env_def sample_env_def)
  ultimately have "loop_step slow_env (new_loop (PyRef 0 None)) sample_loop"
    using loop_step.Schedule by metis
  then have "reachable slow_env sample_loop" unfolding reachable_def by blast
  moreover have "ready 0 (PyRef 10 None) (PyRef 11 None) 0 sample_loop"
    by (simp add: ready_def) (simp add: sample_loop_eval opened_def lock_state_def new_task_def default_task_state_def)
  ultimately have "(\<forall>k\<le>2. channel_outcome 0 (log ((call_task slow_env 0 None ^^ k) sample_loop)) = None) \<and>
      channel_outcome 0 (log ((call_task slow_env 0 None ^^ 3) sample_loop)) =
        Some (Some (snd (response_from_return_value (PyInt 7))))"
    using handler_runs_to_completion [OF r, of sample_loop 0 0] by (simp add: numeral_3_eq_3 numeral_2_eq_2)
  with r show ?thesis by blast
qed

end
