(* ===== verification/Collector.thy ===== *)
theory Collector
  imports Progress "HOL-Library.Multiset"
begin

text \<open>
  What a task tells CPython's cycle collector: \<open>HandlerTask::__traverse__\<close> of
  \<open>crates/dispatch/src/lib.rs\<close>.  The collector subtracts one from the reference count of an object
  for every visit, so a visit too many lets it free an object that is still in use, and a visit
  too few keeps a cycle alive.
\<close>

section \<open>Traversal\<close>

text \<open>
  \<open>visit_each refuses\<close>: \<open>visit.call(..)?\<close> on each object in order; the visitor ends the traversal by
  a non-zero answer, which is \<open>refuses\<close>.  The result says whether the end was reached, and gives the
  objects visited.
\<close>

fun visit_each :: "(pyobj \<Rightarrow> bool) \<Rightarrow> pyobj list \<Rightarrow> bool \<times> pyobj list" where
  "visit_each refuses [] = (True, [])"
| "visit_each refuses (x # xs) =
     (if refuses x then (False, [x])
      else case visit_each refuses xs of (reached_end, visited) \<Rightarrow> (reached_end, x # visited))"

text \<open>An optional reference is visited when it is there.\<close>

fun visit_option :: "'a option \<Rightarrow> 'a list" where
  "visit_option None = []"
| "visit_option (Some x) = [x]"

definition state_references :: "task_state \<Rightarrow> pyobj list" where
  "state_references st =
     visit_option (coroutine st) @ visit_option (task_context st) @ visit_option (waiting_on st) @
     visit_option (deferred_throw st) @ visit_option (cancel_message st) @
     visit_option (cancelled_message st) @ visit_option (task_name st) @
     visit_option (stored_result st) @ visit_option (stored_exception st) @
     concat (map (\<lambda>(callback, callback_context). [callback, callback_context]) (done_callbacks st))"

text \<open>\<open>lock_free\<close>: whether \<open>try_lock\<close> got the state.\<close>

definition traverse :: "(pyobj \<Rightarrow> bool) \<Rightarrow> bool \<Rightarrow> handler_task \<Rightarrow> bool \<times> pyobj list" where
  "traverse refuses lock_free task =
     visit_each refuses
       (handler task # handler_kwargs task # (if lock_free then state_references (tstate task) else []))"

section \<open>References held\<close>

text \<open>The strong references of a task of its own, counted field by field.  Those it shares with the other
  tasks through \<open>loop_handles\<close> are left out by the code on purpose and are not counted.\<close>

definition option_mset :: "'a option \<Rightarrow> 'a multiset" where
  "option_mset x = (case x of None \<Rightarrow> {#} | Some y \<Rightarrow> {#y#})"

definition held :: "handler_task \<Rightarrow> pyobj multiset" where
  "held task =
     (let st = tstate task in
      {#handler task, handler_kwargs task#} +
      (\<Sum>field \<leftarrow> [coroutine, task_context, waiting_on, deferred_throw, cancel_message, task_name,
                 cancelled_message, stored_result, stored_exception]. option_mset (field st)) +
      image_mset fst (mset (done_callbacks st)) + image_mset snd (mset (done_callbacks st)))"

lemma option_mset_simps [simp]: "option_mset None = {#}" "option_mset (Some x) = {#x#}"
  by (simp_all add: option_mset_def)

lemma mset_visit_option [simp]: "mset (visit_option x) = option_mset x"
  by (cases x) simp_all

lemma mset_callbacks [simp]:
  "mset (concat (map (\<lambda>(c, d). [c, d]) cbs)) = image_mset fst (mset cbs) + image_mset snd (mset cbs)"
  by (induction cbs) auto

lemma visit_each_subset: "mset (snd (visit_each refuses xs)) \<subseteq># mset xs"
  by (induction xs) (auto split: prod.split)

lemma visit_each_all [simp]: "visit_each (\<lambda>_. False) xs = (True, xs)"
  by (induction xs) auto

lemma mset_references:
  "held task = {#handler task, handler_kwargs task#} + mset (state_references (tstate task))"
  by (simp add: held_def state_references_def Let_def ac_simps)

text \<open>
  C37.  The collector contract: whatever the visitor answers and whether or not the state is locked
  at that moment, no reference is reported more often than the task holds it; and a traversal that
  finds the lock free and is not stopped reports exactly the references held.\<close>

theorem traverse_reports_held:
  "mset (snd (traverse refuses lock_free task)) \<subseteq># held task \<and>
   (case traverse (\<lambda>_. False) True task of
      (reached_end, visited) \<Rightarrow> reached_end \<and> mset visited = held task)"
proof -
  have "mset (snd (traverse refuses lock_free task)) \<subseteq>#
      mset (handler task # handler_kwargs task # (if lock_free then state_references (tstate task) else []))"
    unfolding traverse_def by (rule visit_each_subset)
  also have "\<dots> \<subseteq># held task" by (simp add: mset_references)
  finally show ?thesis by (simp add: traverse_def mset_references)
qed

section \<open>The cycle of a parked task\<close>

lemma traverse_finished:
  assumes "\<not> finished (lock_state s a)" "response_sender (heap s a) = Some ch"
  shows "traverse (\<lambda>_. False) True (heap (finish env a r c s) a) =
    (let st = final_state c (lock_state s a) in
     (True, handler (heap s a) # handler_kwargs (heap s a) #
        visit_option (coroutine st) @ visit_option (task_context st) @ visit_option (cancel_message st) @
        visit_option (cancelled_message st) @ visit_option (task_name st) @
        visit_option (stored_result st) @ visit_option (stored_exception st)))"
  using finish_unfinished [OF assms, of env r c]
  by (auto simp: traverse_def state_references_def Let_def)

text \<open>
  C38.  A parked task and its future refer to each other.  While the task is parked the collector is
  shown the future; when the task finishes, its side of the cycle is gone: besides recording the
  outcome, finishing gives up exactly the future, a deferred exception, the done callbacks and
  their contexts.\<close>

theorem parked_cycle_visible_then_broken:
  assumes "park_on_future env a future s = (Parked, s1)" "\<not> finished (lock_state s1 a)"
    "response_sender (heap s1 a) = Some ch"
  shows "AddedDoneCallback future a True \<in> set (log s1) \<and>
    future \<in> set (snd (traverse (\<lambda>_. False) True (heap s1 a))) \<and>
    held (heap (finish env a r c s1) a) +
      (option_mset (waiting_on (lock_state s1 a)) + option_mset (deferred_throw (lock_state s1 a)) +
       image_mset fst (mset (done_callbacks (lock_state s1 a))) +
       image_mset snd (mset (done_callbacks (lock_state s1 a)))) =
      held ((heap s1 a)\<lparr>tstate := record_completion c (lock_state s1 a)\<rparr>)"
proof -
  have p: "waiting_on (lock_state s1 a) = Some future" "AddedDoneCallback future a True \<in> set (log s1)"
    using assms(1)
    by (auto simp: park_on_future_def Let_def is_ok_def print_error_def split: sum.splits if_splits)
  have "held (heap (finish env a r c s1) a) = mset (snd (traverse (\<lambda>_. False) True
      (heap (finish env a r c s1) a)))"
    by (simp add: traverse_def mset_references)
  also have "\<dots> + (option_mset (waiting_on (lock_state s1 a)) + option_mset (deferred_throw (lock_state s1 a)) +
       image_mset fst (mset (done_callbacks (lock_state s1 a))) +
       image_mset snd (mset (done_callbacks (lock_state s1 a)))) =
      held ((heap s1 a)\<lparr>tstate := record_completion c (lock_state s1 a)\<rparr>)"
    unfolding traverse_finished [OF assms(2,3)]
    by (cases c) (simp_all add: held_def Let_def final_state_def record_completion_def lock_state_def ac_simps)
  finally show ?thesis using p by (simp add: traverse_def state_references_def lock_state_def)
qed

theorem parked_cycle_visible_then_broken_witness:
  "PyRef 30 None \<in> set (snd (traverse (\<lambda>_. False) True
     (heap (snd (park_on_future sample_env 0 (PyRef 30 None) sample_watched)) 0)))"
proof -
  let ?r = "park_on_future sample_env 0 (PyRef 30 None) sample_watched"
  have "fst ?r = Parked" "\<not> finished (lock_state (snd ?r) 0)" "response_sender (heap (snd ?r) 0) = Some 0"
    by code_simp+
  then show ?thesis
    using parked_cycle_visible_then_broken [of sample_env 0 "PyRef 30 None" sample_watched "snd ?r" 0]
    by (metis surjective_pairing)
qed

end
