(* ===== verification/Spec2Isabelle.thy ===== *)
theory Spec2Isabelle
  imports Server Collector
begin

text \<open>
  A verification of \<^emph>\<open>Rayo\<close>, a web framework whose server, router, serializer and scheduler are
  written in Rust and whose handlers are written in Python.

  \<^bold>\<open>The program and its models.\<close>  The five crates under \<open>src/crates\<close> and the theories that model them:

  \<^item> \<open>schema\<close>: the JSON serializer of responses.  \<open>Schema\<close> has \<open>write_json\<close> and its helpers over the
    Python values of \<open>PyObjects\<close>; \<open>Text\<close> (UTF-8), \<open>Numerals\<close> (decimal integers, \<open>i64\<close> parsing) and
    \<open>Float64\<close> (binary64 bits, shortest formatting, parsing) are what the code uses of the Rust library.
    \<open>Rounding\<close> says in exact arithmetic what number a binary64 word is and which number is
    nearest; \<open>Json\<close> is an independent JSON reader.  Against these two the output is checked.
  \<^item> \<open>dispatch\<close>: the scheduler.  \<open>Response\<close> maps handler results to responses.  \<open>Task\<close> has the state
    (\<open>task_state\<close>, \<open>handler_task\<close>, \<open>loop_handles\<close>, \<open>event_loop\<close>) and the Python side; \<open>HandlerTask\<close> every method of
    \<open>HandlerTask\<close>, one definition each; \<open>EventLoop\<close> the methods of \<open>EventLoop\<close> and
    \<open>DispatchedRequest\<close>; \<open>Pool\<close> those of \<open>EventLoopPool\<close>; \<open>Collector\<close> has
    \<open>HandlerTask::__traverse__\<close>.
  \<^item> \<open>router\<close>: \<open>Router\<close>, one tree per method; the \<open>matchit\<close> tree is a parameter with the hypothesis
    \<open>matchit_ok\<close>.
  \<^item> \<open>core\<close>: \<open>AppService\<close> is the request path (\<open>handle\<close>, argument conversion, the responses),
    \<open>Server\<close> the life of the server (\<open>start_server\<close>, \<open>shutdown\<close>, \<open>wait\<close>, drop).
  \<^item> \<open>server\<close>: the accept loop, at the end of \<open>Server\<close>.

  \<^bold>\<open>How state and effects correspond.\<close>  An \<open>event_loop\<close> holds the registry of live tasks, the tasks
  by address, the in-flight gauge as a 64-bit word, and the log of everything asked of Python and of
  the channels, newest first.  Python, asyncio and the operating system are records of functions
  (\<open>py_env\<close>, \<open>start_env\<close>, \<open>core_env\<close>, \<open>server_env\<close>, \<open>shutdown_env\<close>).  The answers of \<open>py_env\<close> may
  depend on the whole log, so a theorem about every environment is a theorem about every behaviour
  of the Python side, failures included.  Python code that runs inside a call (a handler, a
  coroutine step, \<open>close\<close>) may call methods of any task: such an answer is a \<open>script\<close>, a tree of
  method calls that branches on their results.  A script may call every method of a task object except
  \<open>__call__\<close>, which is for the event loop; the \<open>cancel\<close> of an awaited future and the calls into
  asyncio itself are single answers and run no task methods.  Errors are values of a sum type, panics explicit
  outcomes.  Counters are words and wrap as in a release build.

  \<^bold>\<open>What is shown.\<close>

  \<^item> \<open>Schema\<close>, \<open>Json\<close>: the serializer equals a reference (text and first error), only appends, and its
    output reads back as the value, every float as a decimal whose nearest binary64 number it is.
  \<^item> \<open>TaskFrame\<close>: what callbacks from Python can change (the contract \<open>quiet_operation\<close>, kept by every
    callable method and so by every script), and the ledger of wake-ups.  \<open>Calm\<close>: what finishing a
    task does, and which operations take no coroutine step.  \<open>Turn\<close>: every turn yields or completes,
    in accordance with the step it took.  \<open>TurnProtocol\<close>: the order of entering, stepping and leaving.  \<open>TaskContract\<close>: the
    properties of tasks as seen from outside.
  \<^item> \<open>LoopInvariant\<close>, \<open>LoopSteps\<close>, \<open>History\<close>: an invariant of the loop kept by every operation, the step
    relation \<open>loop_step\<close> that interleaves them, and the properties of all reachable states: exact
    gauge and registry, one turn coming per live task, one outcome per request, outcomes final, and
    a stop that settles everything.
  \<^item> \<open>Ledger\<close>: the loop refines an abstract life cycle of requests, and a turn moves no request but its
    own.  \<open>Answers\<close>: whatever is sent on a channel is the internal error or a rendered return value.
    \<open>Progress\<close>: a handler that yields \<open>n\<close> times and returns is answered after exactly \<open>n + 1\<close> turns.  \<open>Collector\<close>: the cycle collector is told of
    exactly the references held, and finishing breaks the cycle of a parked task.
  \<^item> \<open>Pool\<close>, \<open>AppService\<close>: least-loaded placement; argument conversion equal to a reference, the same
    for sync and async handlers, and exact on integers.  \<open>Router\<close>, \<open>Server\<close>: one tree per method that
    holds its routes alone, a started server that never panics and dispatches each request to the route
    registered for it, the fate of a request on every branch of \<open>handle\<close>, responses that reach the wire
    unchanged, and the guarantees of a shutdown.

  \<^bold>\<open>Interfaces.\<close>  \<open>codec\<close> (a prefix-free encoding, given by UTF-8), \<open>quiet_operation\<close> (methods that
  Python may call), \<open>transition_invariant\<close> (invariants of a step relation, given by the loop invariant,
  by the growth of the log and by the answers in it), \<open>method_table\<close> (a table split by method, given by the router).

  \<^bold>\<open>Bounds and termination.\<close>  Everything is total.  The JSON reader takes its fuel from the length of
  its input, and the round trip shows that this is enough.  The loops of the source run over finite
  lists.  The wait of \<open>Server::wait\<close> may not return, which is the value \<open>None\<close>.

  \<^bold>\<open>Simplifications.\<close>  An operation that another thread runs (\<open>schedule\<close>, a dropped request, a
  cancellation sweep) is one step of \<open>loop_step\<close>; the turns of a loop are serial in the program too.
  Python values are finite trees, so cyclic values, on which the serializer would not end, do not
  occur.  The registry is a list, the source's a hash map: nothing depends on its order.

  \<^bold>\<open>Not modelled.\<close>  The module definition and \<open>core_version\<close>, the Python surface under
  \<open>src/python\<close>, the text of lines on standard error other than their content, and the packages
  behind the parameters: matchit, Tokio, hyper with its http types and graceful shutdown, pyo3 and
  CPython.  Of matchit the hypothesis \<open>matchit_ok\<close> is used, of the http types \<open>http_ok\<close>, each shown
  to hold of a concrete instance.
\<close>

end
